theory Spec2Isabelle
  imports Complex_Main
begin

section \<open>Numbers and arrays\<close>

text \<open>
  The notebook computes with numpy float64 values carried by astropy quantities. A value
  is a real number or one of the three IEEE special values, and every quantity is taken in
  one consistent (CGS) unit system. Division by zero and the square root of a negative
  number do not raise in numpy: they yield an infinity or NaN, which then propagates.

  The operations \<open>xdiv\<close>, \<open>xmul\<close>, \<open>xsub\<close>, \<open>xadd\<close>, \<open>xexp\<close> and \<open>xsqrt\<close> below are the
  operations of IEEE 754 before rounding: on two numbers they give the exact real result.
  A float64 operation is such an operation followed by rounding to the nearest double,
  which is defined after them.
\<close>

datatype xreal = Fin real | PInf | NInf | NaN

fun xinf :: "bool \<Rightarrow> xreal" where
  "xinf True = PInf"
| "xinf False = NInf"

fun xdiv :: "xreal \<Rightarrow> xreal \<Rightarrow> xreal" where
  "xdiv NaN _ = NaN"
| "xdiv _ NaN = NaN"
| "xdiv (Fin a) (Fin b) =
     (if b \<noteq> 0 then Fin (a / b) else if a = 0 then NaN else xinf (0 < a))"
| "xdiv (Fin a) _ = Fin 0"
| "xdiv PInf (Fin b) = xinf (0 \<le> b)"
| "xdiv NInf (Fin b) = xinf (b < 0)"
| "xdiv _ _ = NaN"

fun xmul :: "xreal \<Rightarrow> xreal \<Rightarrow> xreal" where
  "xmul NaN _ = NaN"
| "xmul _ NaN = NaN"
| "xmul (Fin a) (Fin b) = Fin (a * b)"
| "xmul (Fin a) PInf = (if a = 0 then NaN else xinf (0 < a))"
| "xmul (Fin a) NInf = (if a = 0 then NaN else xinf (a < 0))"
| "xmul PInf (Fin b) = (if b = 0 then NaN else xinf (0 < b))"
| "xmul NInf (Fin b) = (if b = 0 then NaN else xinf (b < 0))"
| "xmul PInf PInf = PInf"
| "xmul PInf NInf = NInf"
| "xmul NInf PInf = NInf"
| "xmul NInf NInf = PInf"

fun xsub :: "xreal \<Rightarrow> xreal \<Rightarrow> xreal" where
  "xsub NaN _ = NaN"
| "xsub _ NaN = NaN"
| "xsub (Fin a) (Fin b) = Fin (a - b)"
| "xsub (Fin a) PInf = NInf"
| "xsub (Fin a) NInf = PInf"
| "xsub PInf PInf = NaN"
| "xsub PInf _ = PInf"
| "xsub NInf NInf = NaN"
| "xsub NInf _ = NInf"

fun xadd :: "xreal \<Rightarrow> xreal \<Rightarrow> xreal" where
  "xadd NaN _ = NaN"
| "xadd _ NaN = NaN"
| "xadd (Fin a) (Fin b) = Fin (a + b)"
| "xadd (Fin a) v = v"
| "xadd PInf NInf = NaN"
| "xadd PInf _ = PInf"
| "xadd NInf PInf = NaN"
| "xadd NInf _ = NInf"

fun xneg :: "xreal \<Rightarrow> xreal" where
  "xneg (Fin a) = Fin (- a)"
| "xneg PInf = NInf"
| "xneg NInf = PInf"
| "xneg NaN = NaN"

fun xexp :: "xreal \<Rightarrow> xreal" where
  "xexp (Fin a) = Fin (exp a)"
| "xexp PInf = PInf"
| "xexp NInf = Fin 0"
| "xexp NaN = NaN"

fun xsqrt :: "xreal \<Rightarrow> xreal" where
  "xsqrt (Fin a) = (if a < 0 then NaN else Fin (sqrt a))"
| "xsqrt PInf = PInf"
| "xsqrt NInf = NaN"
| "xsqrt NaN = NaN"

subsection \<open>Rounding to float64\<close>

text \<open>
  A double has 53 significant bits and an exponent from \<open>-1022\<close> to \<open>1023\<close>. Around a real
  \<open>r\<close> the doubles are the integer multiples of \<open>quantum64 r\<close>, which is \<open>2\<^sup>e\<^sup>-\<^sup>5\<^sup>2\<close> for the
  exponent \<open>e\<close> of \<open>r\<close>, and \<open>2\<^sup>-\<^sup>1\<^sup>0\<^sup>7\<^sup>4\<close> in the subnormal range. Rounding takes \<open>r\<close> to the nearest
  multiple, a tie to the even one (\<open>rne\<close>), and to an infinity when the nearest multiple
  reaches \<open>2\<^sup>1\<^sup>0\<^sup>2\<^sup>4\<close>; a result that rounds to zero is the number 0, whose sign is not
  modelled.
\<close>

definition rne :: "real \<Rightarrow> int" where
  "rne t = (let n = \<lfloor>t\<rfloor>; d = t - of_int n
            in if d < 1 / 2 then n else if 1 / 2 < d then n + 1
               else if even n then n else n + 1)"

definition expo64 :: "real \<Rightarrow> int" where
  "expo64 r = max \<lfloor>log 2 \<bar>r\<bar>\<rfloor> (- 1022)"

definition quantum64 :: "real \<Rightarrow> real" where
  "quantum64 r = 2 powr (of_int (expo64 r) - 52)"

definition nearest64 :: "real \<Rightarrow> real" where
  "nearest64 r = of_int (rne (r / quantum64 r)) * quantum64 r"

definition round64 :: "real \<Rightarrow> xreal" where
  "round64 r =
     (if r = 0 then Fin 0
      else if 2 ^ 1024 \<le> \<bar>nearest64 r\<bar> then xinf (0 < r)
      else Fin (nearest64 r))"

fun xround :: "xreal \<Rightarrow> xreal" where
  "xround (Fin a) = round64 a"
| "xround v = v"

text \<open>
  The float64 operations. Multiplication, division, subtraction, addition and the square
  root are correctly rounded by IEEE 754; \<open>np.exp\<close> and the power \<open>**\<close> are taken as correctly
  rounded too.
\<close>

definition xmul64 :: "xreal \<Rightarrow> xreal \<Rightarrow> xreal" where
  "xmul64 u v = xround (xmul u v)"

definition xdiv64 :: "xreal \<Rightarrow> xreal \<Rightarrow> xreal" where
  "xdiv64 u v = xround (xdiv u v)"

definition xsub64 :: "xreal \<Rightarrow> xreal \<Rightarrow> xreal" where
  "xsub64 u v = xround (xsub u v)"

definition xadd64 :: "xreal \<Rightarrow> xreal \<Rightarrow> xreal" where
  "xadd64 u v = xround (xadd u v)"

definition xexp64 :: "xreal \<Rightarrow> xreal" where
  "xexp64 u = xround (xexp u)"

definition xsqrt64 :: "xreal \<Rightarrow> xreal" where
  "xsqrt64 u = xround (xsqrt u)"

definition xpow64 :: "xreal \<Rightarrow> nat \<Rightarrow> xreal" where
  "xpow64 u n = (case u of Fin a \<Rightarrow> round64 (a ^ n) | _ \<Rightarrow> NaN)"

subsection \<open>Arrays\<close>

text \<open>
  A frequency input is a scalar or an ordered sequence. Every numpy operation the methods
  use is elementwise, and every other operand is a scalar that numpy broadcasts, so a
  method's value on a sequence is its scalar expression applied to each element.
\<close>

datatype 'a ndarray = Scalar 'a | Array "'a list"

fun shape :: "'a ndarray \<Rightarrow> nat list" where
  "shape (Scalar _) = []"
| "shape (Array xs) = [length xs]"

fun elementwise :: "('a \<Rightarrow> 'b) \<Rightarrow> 'a ndarray \<Rightarrow> 'b ndarray" where
  "elementwise f (Scalar x) = Scalar (f x)"
| "elementwise f (Array xs) = Array (map f xs)"

fun elements :: "'a ndarray \<Rightarrow> 'a list" where
  "elements (Scalar x) = [x]"
| "elements (Array xs) = xs"

section \<open>Physical constants\<close>

text \<open>
  The constants \<open>c.h\<close>, \<open>c.k_B\<close>, \<open>c.c\<close>, \<open>c.e.gauss\<close>, \<open>c.m_e\<close> and \<open>c.m_p\<close> come
  from \<open>astropy.constants\<close>, which is not part of the repository: the methods take them
  as a parameter.
\<close>

record constants =
  c_h :: real
  c_k_B :: real
  c_c :: real
  c_e_gauss :: real
  c_m_e :: real
  c_m_p :: real

definition physical :: "constants \<Rightarrow> bool" where
  "physical c \<longleftrightarrow>
     0 < c_h c \<and> 0 < c_k_B c \<and> 0 < c_c c \<and> 0 < c_e_gauss c \<and> 0 < c_m_e c \<and> 0 < c_m_p c"

text \<open>The CODATA 2018 values in CGS units, as astropy prints them.\<close>

definition codata :: constants where
  "codata = \<lparr> c_h = 662607015 / 10 ^ 35,
              c_k_B = 1380649 / 10 ^ 22,
              c_c = 29979245800,
              c_e_gauss = 4803204712570263 / 10 ^ 25,
              c_m_e = 91093837015 / 10 ^ 38,
              c_m_p = 167262192369 / 10 ^ 35 \<rparr>"

text \<open>
  The doubles that the notebook computes with. It imports \<open>astropy.constants\<close> as it is, so
  \<open>c.h\<close>, \<open>c.k_B\<close>, \<open>c.c\<close>, \<open>c.m_e\<close> and \<open>c.m_p\<close> hold the SI values and \<open>c.e.gauss\<close> the
  Gaussian one; the arithmetic of quantities multiplies and divides these numbers as they
  are and keeps the units aside. Each is an integer of at most 53 bits times a power of
  two. The last is the double \<open>pi\<close> of the module \<open>math\<close>.
\<close>

definition astropy :: constants where
  "astropy = \<lparr> c_h = 7747209898635537 / 2 ^ 163,
               c_k_B = 1174526274017567 / 2 ^ 126,
               c_c = 299792458,
               c_e_gauss = 1161343638784171 / 2 ^ 81,
               c_m_e = 5200538747975661 / 2 ^ 152,
               c_m_p = 4662589416710853 / 2 ^ 141 \<rparr>"

definition pi64 :: real where
  "pi64 = 884279719003555 / 2 ^ 48"

section \<open>The class \<open>Radiating\<close> and its subclasses\<close>

text \<open>
  The attributes that \<open>Radiating.__init__\<close> sets. The attribute \<open>cos\<close> is named
  \<open>cos_attr\<close> here.
\<close>

record Radiating =
  rho :: real
  T :: real
  B :: real
  cos_attr :: real
  Z :: int

text \<open>\<open>__init__(self, rho, T, cos_theta, B, Z=1)\<close>: an absent \<open>Z\<close> takes the default.\<close>

definition Radiating_init :: "real \<Rightarrow> real \<Rightarrow> real \<Rightarrow> real \<Rightarrow> int option \<Rightarrow> Radiating" where
  "Radiating_init rho' T' cos_theta B' Z' =
     \<lparr> rho = rho', T = T', B = B', cos_attr = cos_theta,
       Z = (case Z' of None \<Rightarrow> 1 | Some z \<Rightarrow> z) \<rparr>"

text \<open>
  A method takes the constants, the object and the frequency input, and returns its value
  together with the object as the call leaves it. The value \<open>None\<close> is Python's \<open>None\<close>,
  which a body that is only \<open>pass\<close> returns.
\<close>

type_synonym pyvalue = "xreal ndarray option"

type_synonym pymethod = "constants \<Rightarrow> Radiating \<Rightarrow> real ndarray \<Rightarrow> pyvalue \<times> Radiating"

text \<open>
  \<open>Radiating.Bnu\<close>, at one frequency, every operation in float64:
  \<^verbatim>\<open>
    x = (c.h * nu) / (c.k_B * self.T)
    f = 2 * c.h * (nu * nu * nu) / (c.c * c.c)
    return f / (np.exp(x) - 1)
  \<close>
  The constants, the attributes and the frequency are doubles already.
\<close>

definition Bnu_x :: "constants \<Rightarrow> Radiating \<Rightarrow> real \<Rightarrow> xreal" where
  "Bnu_x c self nu =
     xdiv64 (xmul64 (Fin (c_h c)) (Fin nu)) (xmul64 (Fin (c_k_B c)) (Fin (T self)))"

definition Bnu_f :: "constants \<Rightarrow> real \<Rightarrow> xreal" where
  "Bnu_f c nu =
     xdiv64 (xmul64 (xmul64 (Fin 2) (Fin (c_h c))) (xmul64 (xmul64 (Fin nu) (Fin nu)) (Fin nu)))
            (xmul64 (Fin (c_c c)) (Fin (c_c c)))"

definition Bnu_denominator :: "constants \<Rightarrow> Radiating \<Rightarrow> real \<Rightarrow> xreal" where
  "Bnu_denominator c self nu = xsub64 (xexp64 (Bnu_x c self nu)) (Fin 1)"

definition Bnu_at :: "constants \<Rightarrow> Radiating \<Rightarrow> real \<Rightarrow> xreal" where
  "Bnu_at c self nu = xdiv64 (Bnu_f c nu) (Bnu_denominator c self nu)"

definition Radiating_Bnu :: pymethod where
  "Radiating_Bnu c self nu = (Some (elementwise (Bnu_at c self) nu), self)"

text \<open>The two abstract methods of \<open>Radiating\<close>: the body of each is \<open>pass\<close>.\<close>

definition Radiating_jnu_bremss :: pymethod where
  "Radiating_jnu_bremss c self nu = (None, self)"

definition Radiating_jnu_sync :: pymethod where
  "Radiating_jnu_sync c self nu = (None, self)"

text \<open>The class \<open>Dummy\<close>: both bodies are \<open>pass\<close>.\<close>

definition Dummy_jnu_bremss :: pymethod where
  "Dummy_jnu_bremss c self nu = (None, self)"

definition Dummy_jnu_sync :: pymethod where
  "Dummy_jnu_sync c self nu = (None, self)"

text \<open>
  \<open>RL.jnu_bremss\<close>, at one frequency:
  \<^verbatim>\<open>
    f = (32 * pi * c.e.gauss**6) / (3 * c.m_e * c.c**3) * np.sqrt(2 * pi / (3 * c.k_B * c.m_e))
    ne = self.rho / (c.m_e + c.m_p)
    ni = ne
    return f * np.sqrt(self.T) * self.Z * self.Z * ne * ni * np.exp(- c.h * nu / (c.k_B * self.T))
  \<close>
  It is embedded twice. In \<open>jnu_bremss_at\<close> every operation is the operation before
  rounding: this is the value that the expression denotes, from which the float64 result
  differs by the rounding of each operation and by underflow. In \<open>jnu_bremss64_at\<close>, further
  down, every operation is the float64 one.
\<close>

definition jnu_bremss_f :: "constants \<Rightarrow> xreal" where
  "jnu_bremss_f c =
     xmul (xdiv (Fin (32 * pi * c_e_gauss c ^ 6)) (Fin (3 * c_m_e c * c_c c ^ 3)))
          (xsqrt (xdiv (Fin (2 * pi)) (Fin (3 * c_k_B c * c_m_e c))))"

definition jnu_bremss_ne :: "constants \<Rightarrow> Radiating \<Rightarrow> xreal" where
  "jnu_bremss_ne c self = xdiv (Fin (rho self)) (Fin (c_m_e c + c_m_p c))"

definition jnu_bremss_at :: "constants \<Rightarrow> Radiating \<Rightarrow> real \<Rightarrow> xreal" where
  "jnu_bremss_at c self nu =
     (let f = jnu_bremss_f c;
          ne = jnu_bremss_ne c self;
          ni = ne
      in xmul (xmul (xmul (xmul (xmul (xmul f (xsqrt (Fin (T self))))
                                      (Fin (real_of_int (Z self))))
                                (Fin (real_of_int (Z self))))
                          ne)
                    ni)
              (xexp (xdiv (Fin (- c_h c * nu)) (Fin (c_k_B c * T self)))))"

definition RL_jnu_bremss :: pymethod where
  "RL_jnu_bremss c self nu = (Some (elementwise (jnu_bremss_at c self) nu), self)"

text \<open>
  The same expression in float64. The value of \<open>f * np.sqrt(self.T) * self.Z * self.Z * ne * ni\<close>
  does not depend on the frequency; the last factor does. The integer \<open>self.Z\<close> is
  converted to a double when it meets one.
\<close>

definition jnu_bremss64_f :: "constants \<Rightarrow> xreal" where
  "jnu_bremss64_f c =
     xmul64 (xdiv64 (xmul64 (xmul64 (Fin 32) (Fin pi64)) (xpow64 (Fin (c_e_gauss c)) 6))
                    (xmul64 (xmul64 (Fin 3) (Fin (c_m_e c))) (xpow64 (Fin (c_c c)) 3)))
            (xsqrt64 (xdiv64 (xmul64 (Fin 2) (Fin pi64))
                             (xmul64 (xmul64 (Fin 3) (Fin (c_k_B c))) (Fin (c_m_e c)))))"

definition jnu_bremss64_ne :: "constants \<Rightarrow> Radiating \<Rightarrow> xreal" where
  "jnu_bremss64_ne c self = xdiv64 (Fin (rho self)) (xadd64 (Fin (c_m_e c)) (Fin (c_m_p c)))"

definition jnu_bremss64_prefactor :: "constants \<Rightarrow> Radiating \<Rightarrow> xreal" where
  "jnu_bremss64_prefactor c self =
     (let f = jnu_bremss64_f c;
          ne = jnu_bremss64_ne c self;
          ni = ne
      in xmul64 (xmul64 (xmul64 (xmul64 (xmul64 f (xsqrt64 (Fin (T self))))
                                        (round64 (real_of_int (Z self))))
                                (round64 (real_of_int (Z self))))
                        ne)
                ni)"

definition jnu_bremss64_exp :: "constants \<Rightarrow> Radiating \<Rightarrow> real \<Rightarrow> xreal" where
  "jnu_bremss64_exp c self nu =
     xexp64 (xdiv64 (xmul64 (Fin (- c_h c)) (Fin nu)) (xmul64 (Fin (c_k_B c)) (Fin (T self))))"

definition jnu_bremss64_at :: "constants \<Rightarrow> Radiating \<Rightarrow> real \<Rightarrow> xreal" where
  "jnu_bremss64_at c self nu = xmul64 (jnu_bremss64_prefactor c self) (jnu_bremss64_exp c self nu)"

definition RL_jnu_bremss64 :: pymethod where
  "RL_jnu_bremss64 c self nu = (Some (elementwise (jnu_bremss64_at c self) nu), self)"

text \<open>\<open>RL.jnu_sync\<close>: the body is \<open>pass\<close>.\<close>

definition RL_jnu_sync :: pymethod where
  "RL_jnu_sync c self nu = (None, self)"

text \<open>The objects the notebook builds, and the frequencies it plots over.\<close>

definition disk :: Radiating where
  "disk = Radiating_init (10 ^ 18) (10 ^ 10) 0 0 None"

definition disk_RL :: Radiating where
  "disk_RL = Radiating_init (10 ^ 18) (10 ^ 10) 0 0 None"

definition nus :: "real ndarray" where
  "nus = Array (map (\<lambda>k. 10 powr (9 + real k / 4)) [0 ..< 61])"

section \<open>Abstract base classes\<close>

text \<open>
  A function object carries the flag \<open>__isabstractmethod__\<close>, which the decorator
  \<open>@abstractmethod\<close> sets. A class has a name, a base class and a namespace; lookup
  of an attribute goes through the class and then its bases.
\<close>

datatype pyfunction = PyFunction (isabstractmethod: bool) (code: pymethod)

datatype pyclass = Object | PyClass string pyclass "(string \<times> pyfunction) list"

fun class_name :: "pyclass \<Rightarrow> string" where
  "class_name Object = ''object''"
| "class_name (PyClass name _ _) = name"

fun getattr_class :: "pyclass \<Rightarrow> string \<Rightarrow> pyfunction option" where
  "getattr_class Object name = None"
| "getattr_class (PyClass _ base ns) name =
     (case map_of ns name of Some f \<Rightarrow> Some f | None \<Rightarrow> getattr_class base name)"

definition attr_isabstract :: "pyfunction option \<Rightarrow> bool" where
  "attr_isabstract v = (case v of None \<Rightarrow> False | Some f \<Rightarrow> isabstractmethod f)"

text \<open>
  What \<open>ABCMeta\<close> computes when a class is created: the names of the namespace whose
  value is abstract, and the abstract names of the base that the new class still resolves
  to an abstract value.
\<close>

fun abstractmethods :: "pyclass \<Rightarrow> string list" where
  "abstractmethods Object = []"
| "abstractmethods (PyClass name base ns) =
     remdups (filter (\<lambda>k. attr_isabstract (map_of ns k)) (map fst ns) @
              filter (\<lambda>k. attr_isabstract (getattr_class (PyClass name base ns) k))
                     (abstractmethods base))"

datatype pyerror = TypeError string "string list" | AttributeError string

text \<open>
  Calling a class: object creation raises \<open>TypeError\<close> when the class still has abstract
  methods, before \<open>__init__\<close> runs; otherwise \<open>Radiating.__init__\<close>, which every class
  below inherits, sets the attributes. An object is its class and its attributes.
\<close>

type_synonym pyobject = "pyclass \<times> Radiating"

definition instantiate ::
  "pyclass \<Rightarrow> real \<Rightarrow> real \<Rightarrow> real \<Rightarrow> real \<Rightarrow> int option \<Rightarrow> pyerror + pyobject" where
  "instantiate cls rho' T' cos_theta B' Z' =
     (if abstractmethods cls \<noteq> [] then Inl (TypeError (class_name cls) (abstractmethods cls))
      else Inr (cls, Radiating_init rho' T' cos_theta B' Z'))"

definition ABC_class :: pyclass where
  "ABC_class = PyClass ''ABC'' Object []"

definition Radiating_class :: pyclass where
  "Radiating_class = PyClass ''Radiating'' ABC_class
     [(''Bnu'', PyFunction False Radiating_Bnu),
      (''jnu_bremss'', PyFunction True Radiating_jnu_bremss),
      (''jnu_sync'', PyFunction True Radiating_jnu_sync)]"

text \<open>
  A subclass of \<open>Radiating\<close> written as \<open>Dummy\<close> and \<open>RL\<close> are: a class statement whose
  body is a sequence of plain \<open>def\<close>s. A later \<open>def\<close> of a name replaces an earlier one.
\<close>

definition new_subclass :: "string \<Rightarrow> (string \<times> pymethod) list \<Rightarrow> pyclass" where
  "new_subclass name body =
     PyClass name Radiating_class (map (\<lambda>(k, m). (k, PyFunction False m)) (rev body))"

definition Dummy_class :: pyclass where
  "Dummy_class = new_subclass ''Dummy''
     [(''jnu_bremss'', Dummy_jnu_bremss), (''jnu_sync'', Dummy_jnu_sync)]"

definition RL_class :: pyclass where
  "RL_class = new_subclass ''RL''
     [(''jnu_bremss'', RL_jnu_bremss), (''jnu_sync'', RL_jnu_sync)]"

text \<open>A method call on an object, and a sequence of calls on the same object.\<close>

definition call_method ::
  "constants \<Rightarrow> pyobject \<Rightarrow> string \<Rightarrow> real ndarray \<Rightarrow> (pyerror + pyvalue) \<times> pyobject" where
  "call_method c obj name nu =
     (case getattr_class (fst obj) name of
        None \<Rightarrow> (Inl (AttributeError name), obj)
      | Some f \<Rightarrow> (case code f c (snd obj) nu of (v, self') \<Rightarrow> (Inr v, (fst obj, self'))))"

fun call_all ::
  "constants \<Rightarrow> pyobject \<Rightarrow> (string \<times> real ndarray) list \<Rightarrow> (pyerror + pyvalue) list \<times> pyobject"
  where
  "call_all c obj [] = ([], obj)"
| "call_all c obj ((name, nu) # calls) =
     (case call_method c obj name nu of
        (r, obj') \<Rightarrow> (case call_all c obj' calls of (rs, obj'') \<Rightarrow> (r # rs, obj'')))"

section \<open>Comparing values\<close>

text \<open>The IEEE comparisons: every comparison with NaN is false.\<close>

fun xless :: "xreal \<Rightarrow> xreal \<Rightarrow> bool" where
  "xless NaN _ = False"
| "xless _ NaN = False"
| "xless (Fin a) (Fin b) = (a < b)"
| "xless (Fin a) PInf = True"
| "xless NInf (Fin b) = True"
| "xless NInf PInf = True"
| "xless _ _ = False"

fun xle :: "xreal \<Rightarrow> xreal \<Rightarrow> bool" where
  "xle NaN _ = False"
| "xle _ NaN = False"
| "xle (Fin a) (Fin b) = (a \<le> b)"
| "xle _ PInf = True"
| "xle NInf _ = True"
| "xle _ _ = False"

text \<open>
  Ranges of values: \<open>between64 i j v\<close> says that \<open>v\<close> is a number from \<open>2\<^sup>i\<close> to \<open>2\<^sup>j\<close>.
\<close>

definition between64 :: "int \<Rightarrow> int \<Rightarrow> xreal \<Rightarrow> bool" where
  "between64 i j v \<longleftrightarrow> (\<exists>y. v = Fin y \<and> 2 powr (of_int i) \<le> y \<and> y \<le> 2 powr (of_int j))"

definition zero_or_NaN :: "xreal \<Rightarrow> bool" where
  "zero_or_NaN v \<longleftrightarrow> v = Fin 0 \<or> v = NaN"


section \<open>The formulas of the specification\<close>

text \<open>
  The Planck spectral radiance as the specification writes it:
  \<open>B_\<nu> = (2 h \<nu>\<^sup>3 / c\<^sup>2) / (exp (h \<nu> / (k_B T)) - 1)\<close>.
\<close>

definition planck_radiance :: "constants \<Rightarrow> real \<Rightarrow> real \<Rightarrow> real" where
  "planck_radiance c temp nu =
     (2 * c_h c * nu ^ 3 / (c_c c)\<^sup>2) / (exp (c_h c * nu / (c_k_B c * temp)) - 1)"

text \<open>
  The bremsstrahlung emissivity as the specification writes it:
  \<open>K e\<^sup>6 T\<^sup>1\<^sup>/\<^sup>2 Z\<^sup>2 n\<^sub>e n\<^sub>i exp (- h \<nu> / (k_B T))\<close> with
  \<open>K = 32 \<pi> / (3 m\<^sub>e c\<^sup>3) sqrt (2 \<pi> / (3 k_B m\<^sub>e))\<close> and \<open>n\<^sub>e = n\<^sub>i = \<rho> / (m\<^sub>e + m\<^sub>p)\<close>.
\<close>

definition bremss_K :: "constants \<Rightarrow> real" where
  "bremss_K c = (32 * pi) / (3 * c_m_e c * c_c c ^ 3) * sqrt (2 * pi / (3 * c_k_B c * c_m_e c))"

definition bremss_n_e :: "constants \<Rightarrow> real \<Rightarrow> real" where
  "bremss_n_e c dens = dens / (c_m_e c + c_m_p c)"

definition bremsstrahlung_emissivity :: "constants \<Rightarrow> real \<Rightarrow> real \<Rightarrow> int \<Rightarrow> real \<Rightarrow> real" where
  "bremsstrahlung_emissivity c dens temp z nu =
     bremss_K c * c_e_gauss c ^ 6 * temp powr (1 / 2) * (real_of_int z)\<^sup>2
       * bremss_n_e c dens * bremss_n_e c dens * exp (- c_h c * nu / (c_k_B c * temp))"


text \<open>A class is pure when none of the methods it resolves changes the object.\<close>

definition pure_class :: "pyclass \<Rightarrow> bool" where
  "pure_class cls \<longleftrightarrow>
     (\<forall>name f c self nu. getattr_class cls name = Some f \<longrightarrow> snd (code f c self nu) = self)"

text \<open>
  The Planck radiance in the dimensionless frequency \<open>x = h \<nu> / (k_B T)\<close> is a positive
  multiple of \<open>x\<^sup>3 / (exp x - 1)\<close>, whose derivative has the sign of
  \<open>3 (exp x - 1) - x exp x\<close>.
\<close>

definition planck_shape :: "real \<Rightarrow> real" where
  "planck_shape x = x ^ 3 / (exp x - 1)"

definition wien_phi :: "real \<Rightarrow> real" where
  "wien_phi x = 3 * (exp x - 1) - x * exp x"

section \<open>Elementwise evaluation\<close>

lemma shape_elementwise: "shape (elementwise f nu) = shape nu"
  by (cases nu) simp_all

lemma elementwise_cong:
  assumes "\<And>x. x \<in> set (elements nu) \<Longrightarrow> f x = g x"
  shows "elementwise f nu = elementwise g nu"
  using assms by (cases nu) simp_all

section \<open>Rounding to float64\<close>

lemma rne_of_int: "rne (of_int n) = n"
  by (simp add: rne_def)

lemma rne_cases: "rne t = \<lfloor>t\<rfloor> \<or> rne t = \<lfloor>t\<rfloor> + 1"
  by (simp add: rne_def Let_def)

lemma rne_floor_le: "\<lfloor>t\<rfloor> \<le> rne t"
  using rne_cases [of t] by auto

lemma rne_le_ceiling: "rne t \<le> \<lceil>t\<rceil>"
proof (cases "t = of_int \<lfloor>t\<rfloor>")
  case True
  then have "rne t = \<lfloor>t\<rfloor>"
    using rne_of_int [of "\<lfloor>t\<rfloor>"] by simp
  then show ?thesis
    by (simp add: floor_le_ceiling)
next
  case False
  then have "\<lceil>t\<rceil> = \<lfloor>t\<rfloor> + 1"
    by (simp add: ceiling_altdef)
  then show ?thesis
    using rne_cases [of t] by auto
qed

lemma rne_mono:
  assumes "s \<le> t"
  shows "rne s \<le> rne t"
proof (cases "\<lfloor>s\<rfloor> = \<lfloor>t\<rfloor>")
  case True
  have "s - of_int \<lfloor>s\<rfloor> \<le> t - of_int \<lfloor>s\<rfloor>"
    using assms by simp
  then show ?thesis
    using True by (auto simp add: rne_def Let_def)
next
  case False
  then have "\<lfloor>s\<rfloor> < \<lfloor>t\<rfloor>"
    using floor_mono [OF assms] by linarith
  then have "\<lfloor>s\<rfloor> + 1 \<le> \<lfloor>t\<rfloor>"
    by simp
  then show ?thesis
    using rne_cases [of s] rne_floor_le [of t] by linarith
qed

lemma rne_ge_int: "of_int n \<le> t \<Longrightarrow> n \<le> rne t"
  using rne_mono [of "of_int n" t] by (simp add: rne_of_int)

lemma rne_le_int: "t \<le> of_int n \<Longrightarrow> rne t \<le> n"
  using rne_mono [of t "of_int n"] by (simp add: rne_of_int)

lemma rne_minus: "rne (- t) = - rne t"
proof (cases "t = of_int \<lfloor>t\<rfloor>")
  case True
  then obtain n where "t = of_int n"
    by blast
  then show ?thesis
    using rne_of_int [of n] rne_of_int [of "- n"] by simp
next
  case False
  then have f: "\<lfloor>- t\<rfloor> = - \<lfloor>t\<rfloor> - 1"
    by (simp add: floor_minus ceiling_altdef)
  have d: "- t - of_int (- \<lfloor>t\<rfloor> - 1) = 1 - (t - of_int \<lfloor>t\<rfloor>)"
    by simp
  have "0 \<le> t - of_int \<lfloor>t\<rfloor>"
    by simp
  show ?thesis
    unfolding rne_def Let_def f d by auto
qed

lemma quantum64_pos: "0 < quantum64 r"
  by (simp add: quantum64_def)

lemma expo64_mono:
  assumes "0 < r" "r \<le> s"
  shows "expo64 r \<le> expo64 s"
proof -
  have "log 2 r \<le> log 2 s"
    using assms by simp
  then have "\<lfloor>log 2 r\<rfloor> \<le> \<lfloor>log 2 s\<rfloor>"
    by (rule floor_mono)
  then show ?thesis
    using assms by (simp add: expo64_def)
qed

lemma expo64_upper:
  assumes "0 < r"
  shows "r < 2 powr (of_int (expo64 r) + 1)"
proof -
  have "log 2 r < of_int \<lfloor>log 2 r\<rfloor> + 1"
    by linarith
  also have "\<dots> \<le> of_int (expo64 r) + 1"
    using assms by (simp add: expo64_def)
  finally have "2 powr (log 2 r) < 2 powr (of_int (expo64 r) + 1)"
    by simp
  then show ?thesis
    using assms by simp
qed

lemma expo64_lower:
  assumes "0 < r" "- 1022 < expo64 r"
  shows "2 powr (of_int (expo64 r)) \<le> r"
proof -
  have "expo64 r = \<lfloor>log 2 r\<rfloor>"
    using assms by (simp add: expo64_def max_def split: if_splits)
  then have "of_int (expo64 r) \<le> log 2 r"
    by simp
  then have "2 powr (of_int (expo64 r)) \<le> 2 powr (log 2 r)"
    by simp
  then show ?thesis
    using assms by simp
qed

lemma quantum64_scale: "2 powr 53 * quantum64 r = 2 powr (of_int (expo64 r) + 1)"
proof -
  have "real_of_int (expo64 r) + 1 = 53 + (real_of_int (expo64 r) - 52)"
    by simp
  then show ?thesis
    unfolding quantum64_def by (simp only: powr_add)
qed

lemma quantum64_scale': "2 powr 52 * quantum64 r = 2 powr (of_int (expo64 r))"
proof -
  have "real_of_int (expo64 r) = 52 + (real_of_int (expo64 r) - 52)"
    by simp
  then have "2 powr (real_of_int (expo64 r)) = 2 powr (52 + (real_of_int (expo64 r) - 52))"
    by simp
  then show ?thesis
    unfolding quantum64_def by (simp only: powr_add)
qed

lemma nearest64_nonneg:
  assumes "0 \<le> r"
  shows "0 \<le> nearest64 r"
proof -
  have "0 \<le> r / quantum64 r"
    using assms quantum64_pos [of r] by simp
  then have "0 \<le> rne (r / quantum64 r)"
    using rne_ge_int [of 0] by simp
  then show ?thesis
    using quantum64_pos [of r] by (simp add: nearest64_def)
qed

lemma nearest64_upper:
  assumes "0 < r"
  shows "nearest64 r \<le> 2 powr (of_int (expo64 r) + 1)"
proof -
  have "r < 2 powr 53 * quantum64 r"
    using expo64_upper [OF assms] by (simp only: quantum64_scale)
  then have "r / quantum64 r \<le> 2 powr 53"
    using quantum64_pos [of r] by (simp add: pos_divide_le_eq less_imp_le)
  then have "r / quantum64 r \<le> of_int (2 ^ 53)"
    by simp
  then have "rne (r / quantum64 r) \<le> 2 ^ 53"
    by (rule rne_le_int)
  then have "of_int (rne (r / quantum64 r)) \<le> (2 powr 53 :: real)"
    by (simp add: of_int_le_iff [symmetric] del: of_int_le_iff)
  then have "nearest64 r \<le> 2 powr 53 * quantum64 r"
    using quantum64_pos [of r] by (simp add: nearest64_def)
  then show ?thesis
    by (simp only: quantum64_scale)
qed

lemma nearest64_lower:
  assumes "0 < r" "- 1022 < expo64 r"
  shows "2 powr (of_int (expo64 r)) \<le> nearest64 r"
proof -
  have "2 powr 52 * quantum64 r \<le> r"
    using expo64_lower [OF assms] by (simp only: quantum64_scale')
  then have "2 powr 52 \<le> r / quantum64 r"
    using quantum64_pos [of r] by (simp add: pos_le_divide_eq)
  then have "of_int (2 ^ 52) \<le> r / quantum64 r"
    by simp
  then have "2 ^ 52 \<le> rne (r / quantum64 r)"
    by (rule rne_ge_int)
  then have "(2 powr 52 :: real) \<le> of_int (rne (r / quantum64 r))"
    by (simp add: of_int_le_iff [symmetric] del: of_int_le_iff)
  then have "2 powr 52 * quantum64 r \<le> nearest64 r"
    using quantum64_pos [of r] by (simp add: nearest64_def)
  then show ?thesis
    by (simp only: quantum64_scale')
qed

lemma nearest64_mono:
  assumes "0 < r" "r \<le> s"
  shows "nearest64 r \<le> nearest64 s"
proof (cases "expo64 r = expo64 s")
  case True
  then have q: "quantum64 r = quantum64 s"
    by (simp add: quantum64_def)
  have "r / quantum64 s \<le> s / quantum64 s"
    using assms quantum64_pos [of s] by (simp add: divide_right_mono)
  then have "rne (r / quantum64 s) \<le> rne (s / quantum64 s)"
    by (rule rne_mono)
  then show ?thesis
    using quantum64_pos [of s] by (simp add: nearest64_def q)
next
  case False
  then have lt: "expo64 r < expo64 s"
    using expo64_mono [OF assms] by simp
  have s: "0 < s"
    using assms by simp
  have "- 1022 \<le> expo64 r"
    by (simp add: expo64_def)
  then have "- 1022 < expo64 s"
    using lt by simp
  then have "2 powr (of_int (expo64 s)) \<le> nearest64 s"
    using s by (intro nearest64_lower)
  moreover have "nearest64 r \<le> 2 powr (of_int (expo64 r) + 1)"
    using assms(1) by (rule nearest64_upper)
  moreover have "2 powr (of_int (expo64 r) + 1) \<le> (2::real) powr (of_int (expo64 s))"
    using lt by simp
  ultimately show ?thesis
    by linarith
qed

lemma round64_pos:
  assumes "0 < r"
  shows "round64 r = (if 2 ^ 1024 \<le> nearest64 r then PInf else Fin (nearest64 r))"
  using assms nearest64_nonneg [of r] by (simp add: round64_def)

lemma round64_not_NaN: "round64 r \<noteq> NaN"
  by (cases "0 < r") (simp_all add: round64_def)

lemma xle_refl: "u \<noteq> NaN \<Longrightarrow> xle u u"
  by (cases u) simp_all

lemma xle_trans: "xle u v \<Longrightarrow> xle v w \<Longrightarrow> xle u w"
  by (cases u; cases v; cases w) simp_all

lemma xle_xneg: "xle u v \<Longrightarrow> xle (xneg v) (xneg u)"
  by (cases u; cases v) simp_all

lemma round64_mono_pos:
  assumes "0 < r" "r \<le> s"
  shows "xle (round64 r) (round64 s)"
proof -
  have s: "0 < s"
    using assms by simp
  have "nearest64 r \<le> nearest64 s"
    using assms by (rule nearest64_mono)
  then show ?thesis
    by (simp add: round64_pos [OF assms(1)] round64_pos [OF s])
qed

lemma round64_nonneg:
  assumes "0 \<le> r"
  shows "xle (Fin 0) (round64 r)"
proof (cases "r = 0")
  case True
  then show ?thesis by (simp add: round64_def)
next
  case False
  then have "0 < r"
    using assms by simp
  then show ?thesis
    using nearest64_nonneg [OF assms] by (simp add: round64_pos)
qed

lemma nearest64_minus: "nearest64 (- r) = - nearest64 r"
proof -
  have "quantum64 (- r) = quantum64 r"
    by (simp add: quantum64_def expo64_def)
  then show ?thesis
    by (simp add: nearest64_def rne_minus)
qed

lemma round64_minus: "round64 (- r) = xneg (round64 r)"
proof -
  consider "r = 0" | "0 < r" | "r < 0"
    by linarith
  then show ?thesis
  proof cases
    case 1
    then show ?thesis by (simp add: round64_def)
  next
    case 2
    then show ?thesis by (simp add: round64_def nearest64_minus)
  next
    case 3
    then show ?thesis by (simp add: round64_def nearest64_minus)
  qed
qed

lemma round64_mono:
  assumes "r \<le> s"
  shows "xle (round64 r) (round64 s)"
proof -
  consider "0 < r" | "r = 0" | "r < 0" "0 \<le> s" | "r < 0" "s < 0"
    by linarith
  then show ?thesis
  proof cases
    case 1
    then show ?thesis using assms by (rule round64_mono_pos)
  next
    case 2
    then show ?thesis
      using round64_nonneg [of s] assms by (simp add: round64_def)
  next
    case 3
    have "xle (Fin 0) (round64 (- r))"
      using 3(1) by (intro round64_nonneg) simp
    then have "xle (xneg (round64 (- r))) (xneg (Fin 0))"
      by (rule xle_xneg)
    then have "xle (round64 r) (Fin 0)"
      using round64_minus [of "- r"] by simp
    then show ?thesis
      using round64_nonneg [OF 3(2)] by (rule xle_trans)
  next
    case 4
    have "xle (round64 (- s)) (round64 (- r))"
      using 4 assms by (intro round64_mono_pos) simp_all
    then have "xle (xneg (round64 (- r))) (xneg (round64 (- s)))"
      by (rule xle_xneg)
    then show ?thesis
      using round64_minus [of "- r"] round64_minus [of "- s"] by simp
  qed
qed

lemma round64_overflow:
  assumes "2 ^ 1024 \<le> r"
  shows "round64 r = PInf"
proof -
  have r: "0 < r"
    using assms by (simp add: less_le_trans [of 0 "2 ^ 1024" r])
  have "(2::real) powr 1024 \<le> r"
    using assms by simp
  then have "1024 \<le> log 2 r"
    using r by (simp add: le_log_iff)
  then have "1024 \<le> \<lfloor>log 2 r\<rfloor>"
    by (simp add: le_floor_iff)
  then have e: "1024 \<le> expo64 r"
    using r by (simp add: expo64_def)
  then have "- 1022 < expo64 r"
    by simp
  then have "2 powr (of_int (expo64 r)) \<le> nearest64 r"
    using r by (intro nearest64_lower)
  moreover have "(2::real) powr 1024 \<le> 2 powr (of_int (expo64 r))"
    using e by (intro powr_mono) simp_all
  ultimately have "2 ^ 1024 \<le> nearest64 r"
    by simp
  then show ?thesis
    by (simp add: round64_pos [OF r])
qed

lemma rne_multiple:
  assumes "0 < q" "r = of_int n * q"
  shows "of_int (rne (r / q)) * q = r"
  using assms by (simp add: rne_of_int)

lemma round64_dyadic_eq:
  assumes "0 < m" "m < 2 ^ 53" "- 1074 \<le> k" "r < 2 ^ 1024"
    and eq: "r = of_int m * 2 powr (of_int k)"
  shows "round64 r = Fin r"
proof -
  have r: "0 < r"
    using assms(1) by (simp add: eq)
  have "real_of_int m < 2 powr 53"
    using assms(2) by (simp add: of_int_less_iff [symmetric] del: of_int_less_iff)
  then have "of_int m * 2 powr (of_int k) < 2 powr 53 * (2::real) powr (of_int k)"
    by (simp del: powr_numeral)
  also have "\<dots> = 2 powr (of_int k + 53)"
    by (simp only: powr_add mult.commute)
  finally have "r < 2 powr (of_int k + 53)"
    by (simp only: eq)
  then have "log 2 r < of_int k + 53"
    using r by (simp add: log_less_iff del: powr_numeral)
  then have "\<lfloor>log 2 r\<rfloor> < k + 53"
    by (simp add: floor_less_iff)
  then have e: "expo64 r \<le> k + 52"
    using assms(3) r by (simp add: expo64_def)
  define d where "d = k + 52 - expo64 r"
  have d: "0 \<le> d"
    using e by (simp add: d_def)
  have "2 powr (of_int d + (of_int (expo64 r) - 52)) = 2 powr (of_int d) * quantum64 r"
    unfolding quantum64_def by (simp only: powr_add)
  moreover have "of_int d + (of_int (expo64 r) - 52) = (of_int k :: real)"
    by (simp add: d_def)
  moreover have "(2::real) powr (of_int d) = 2 ^ nat d"
    using d by (simp add: powr_real_of_int)
  ultimately have k: "2 powr (of_int k) = 2 ^ nat d * quantum64 r"
    by simp
  have "of_int m * 2 powr (of_int k) = of_int (m * 2 ^ nat d) * quantum64 r"
    by (simp only: k of_int_mult of_int_power of_int_numeral mult.assoc)
  with eq have rq: "r = of_int (m * 2 ^ nat d) * quantum64 r"
    by (rule trans)
  have "nearest64 r = r"
    unfolding nearest64_def using quantum64_pos rq by (rule rne_multiple)
  then show ?thesis
    using assms(4) by (simp add: round64_pos [OF r])
qed

lemma round64_dyadic:
  assumes "0 < m" "m < 2 ^ 53" "- 1074 \<le> k"
    and "of_int m * 2 powr (of_int k) < (2 ^ 1024 :: real)"
  shows "round64 (of_int m * 2 powr (of_int k)) = Fin (of_int m * 2 powr (of_int k))"
  using assms by (intro round64_dyadic_eq [of m k]) simp_all

lemma round64_pow2:
  assumes "- 1074 \<le> k" "k \<le> 1023"
  shows "round64 (2 powr (of_int k)) = Fin (2 powr (of_int k))"
proof -
  have "(2::real) powr (of_int k) \<le> 2 powr 1023"
    using assms(2) by (intro powr_mono) simp_all
  then have "of_int 1 * 2 powr (of_int k) < (2 ^ 1024 :: real)"
    by simp
  then show ?thesis
    using round64_dyadic [of 1 k] assms(1) by simp
qed

lemma round64_one_above:
  assumes "1 \<le> r" "r \<le> 1 + 1 / 2 ^ 53"
  shows "round64 r = Fin 1"
proof -
  have r: "0 < r"
    using assms by simp
  have "(2::real) powr 0 \<le> r \<and> r < 2 powr (0 + 1)"
    using assms by simp
  then have "\<lfloor>log 2 r\<rfloor> = 0"
    using r by (simp add: floor_log_eq_powr_iff)
  then have q: "quantum64 r = 1 / 2 ^ 52"
    using r by (simp add: quantum64_def expo64_def powr_minus_divide)
  have lo: "2 ^ 52 \<le> r * 2 ^ 52" and hi: "r * 2 ^ 52 \<le> 2 ^ 52 + 1 / 2"
    using assms by simp_all
  have f: "\<lfloor>r * 2 ^ 52\<rfloor> = 2 ^ 52"
    using lo hi by (intro floor_unique) simp_all
  have "rne (r * 2 ^ 52) = 2 ^ 52"
    unfolding rne_def Let_def f using hi by simp
  then show ?thesis
    by (simp add: round64_pos [OF r] nearest64_def q)
qed


lemma round64_0: "round64 0 = Fin 0"
  by (simp add: round64_def)

lemma round64_1: "round64 1 = Fin 1"
  by (rule round64_one_above) simp_all

lemma round64_ge_dyadic:
  assumes "of_int m * 2 powr (of_int k) \<le> r" "0 < m" "m < 2 ^ 53" "- 1074 \<le> k"
    "of_int m * 2 powr (of_int k) < (2 ^ 1024 :: real)"
  shows "xle (Fin (of_int m * 2 powr (of_int k))) (round64 r)"
  using round64_mono [OF assms(1)] round64_dyadic [OF assms(2-5)] by simp

section \<open>The float64 operations\<close>

lemma pow2_le_pos: "2 powr x \<le> a \<Longrightarrow> 0 < (a::real)"
  by (rule less_le_trans [of 0 "2 powr x"]) simp_all

lemma between64_I: "2 powr (of_int i) \<le> y \<Longrightarrow> y \<le> 2 powr (of_int j) \<Longrightarrow> between64 i j (Fin y)"
  by (simp add: between64_def)

lemma round64_between:
  assumes "2 powr (of_int i) \<le> r" "r \<le> 2 powr (of_int j)" "- 1074 \<le> i" "j \<le> 1023"
  shows "between64 i j (round64 r)"
proof -
  have ij: "(2::real) powr (of_int i) \<le> 2 powr (of_int j)"
    using assms(1,2) by linarith
  then have "i \<le> j"
    by simp
  have lo: "xle (Fin (2 powr (of_int i))) (round64 r)"
    using round64_mono [OF assms(1)] round64_pow2 [of i] assms(3,4) \<open>i \<le> j\<close> by simp
  have hi: "xle (round64 r) (Fin (2 powr (of_int j)))"
    using round64_mono [OF assms(2)] round64_pow2 [of j] assms(3,4) \<open>i \<le> j\<close> by simp
  show ?thesis
    using lo hi by (cases "round64 r") (simp_all add: between64_def)
qed

lemma between64_mul:
  assumes "between64 i j u" "between64 k l v" "- 1074 \<le> i + k" "j + l \<le> 1023"
  shows "between64 (i + k) (j + l) (xmul64 u v)"
proof -
  obtain a where a: "u = Fin a" "2 powr (of_int i) \<le> a" "a \<le> 2 powr (of_int j)"
    using assms(1) by (auto simp add: between64_def)
  obtain b where b: "v = Fin b" "2 powr (of_int k) \<le> b" "b \<le> 2 powr (of_int l)"
    using assms(2) by (auto simp add: between64_def)
  have pos: "0 < a" "0 < b"
    using a(2) b(2) by (auto intro: pow2_le_pos)
  have "2 powr (of_int i) * 2 powr (of_int k) \<le> a * b"
    using a(2) b(2) pos by (intro mult_mono) simp_all
  then have lo: "2 powr (of_int (i + k)) \<le> a * b"
    by (simp add: powr_add)
  have "a * b \<le> 2 powr (of_int j) * 2 powr (of_int l)"
    using a(3) b(3) pos by (intro mult_mono) simp_all
  then have hi: "a * b \<le> 2 powr (of_int (j + l))"
    by (simp add: powr_add)
  show ?thesis
    using round64_between [OF lo hi assms(3,4)] by (simp add: xmul64_def a(1) b(1))
qed

lemma between64_div:
  assumes "between64 i j u" "between64 k l v" "- 1074 \<le> i - l" "j - k \<le> 1023"
  shows "between64 (i - l) (j - k) (xdiv64 u v)"
proof -
  obtain a where a: "u = Fin a" "2 powr (of_int i) \<le> a" "a \<le> 2 powr (of_int j)"
    using assms(1) by (auto simp add: between64_def)
  obtain b where b: "v = Fin b" "2 powr (of_int k) \<le> b" "b \<le> 2 powr (of_int l)"
    using assms(2) by (auto simp add: between64_def)
  have pos: "0 < a" "0 < b"
    using a(2) b(2) by (auto intro: pow2_le_pos)
  have "2 powr (of_int i) / 2 powr (of_int l) \<le> a / b"
    using a(2) b(3) pos by (intro frac_le) simp_all
  then have lo: "2 powr (of_int (i - l)) \<le> a / b"
    by (simp add: powr_diff)
  have "a / b \<le> 2 powr (of_int j) / 2 powr (of_int k)"
    using a(3) b(2) pos by (intro frac_le) simp_all
  then have hi: "a / b \<le> 2 powr (of_int (j - k))"
    by (simp add: powr_diff)
  show ?thesis
    using round64_between [OF lo hi assms(3,4)] pos by (simp add: xdiv64_def a(1) b(1))
qed





lemma between64_D:
  assumes "between64 i j v"
  obtains y where "v = Fin y" "2 powr (of_int i) \<le> y" "y \<le> 2 powr (of_int j)" "0 < y"
  using assms pow2_le_pos by (auto simp add: between64_def)

lemma xexp64_tiny:
  assumes "0 \<le> y" "y \<le> 1 / 2 ^ 54"
  shows "xexp64 (Fin y) = Fin 1"
proof -
  have "y * y \<le> (1 / 2 ^ 54) * (1 / 2 ^ 54)"
    using assms by (intro mult_mono) simp_all
  moreover have "exp y \<le> 1 + y + y\<^sup>2"
    using assms by (intro exp_bound) simp_all
  ultimately have "exp y \<le> 1 + 1 / 2 ^ 53"
    using assms(2) by (simp add: power2_eq_square)
  moreover have "1 \<le> exp y"
    using assms(1) by simp
  ultimately have "round64 (exp y) = Fin 1"
    by (intro round64_one_above)
  then show ?thesis
    by (simp add: xexp64_def)
qed

lemma xmul64_zero_right: "round64 a \<noteq> NaN \<Longrightarrow> zero_or_NaN (xmul64 (round64 a) (Fin 0))"
  by (cases "round64 a") (simp_all add: xmul64_def zero_or_NaN_def round64_0)

lemma xdiv64_zero_left:
  assumes "zero_or_NaN u"
  shows "zero_or_NaN (xdiv64 u (round64 a))"
  using assms round64_not_NaN [of a]
  by (cases "round64 a") (auto simp add: xdiv64_def zero_or_NaN_def round64_0)

lemma exp_1024: "(2 ^ 1024 :: real) \<le> exp 1024"
proof -
  have "(2::real) \<le> exp 1"
    using exp_ge_add_one_self [of 1] by simp
  then have "(2::real) ^ 1024 \<le> exp 1 ^ 1024"
    by (intro power_mono) simp_all
  also have "\<dots> = exp 1024"
    by (simp add: exp_of_nat_mult [symmetric])
  finally show ?thesis .
qed

lemma xexp64_overflow:
  assumes "1024 \<le> y"
  shows "xexp64 (Fin y) = PInf"
proof -
  have "exp 1024 \<le> exp y"
    using assms by simp
  then have "2 ^ 1024 \<le> exp y"
    using exp_1024 by linarith
  then show ?thesis
    by (simp add: xexp64_def round64_overflow)
qed












section \<open>The Planck radiance of the specification\<close>

text \<open>
  The properties of the formula \<open>(2 h \<nu>\<^sup>3 / c\<^sup>2) / (exp (h \<nu> / (k_B T)) - 1)\<close> itself: it is
  positive, tends to 0 at both ends, and has one peak, between \<open>2.821 k_B T / h\<close> and
  \<open>2.822 k_B T / h\<close>.
\<close>

subsection \<open>The shape of the Planck radiance\<close>

lemma planck_radiance_shape:
  assumes "physical c" "0 < temp"
  shows "planck_radiance c temp nu =
           2 * c_h c / (c_c c)\<^sup>2 * (c_k_B c * temp / c_h c) ^ 3
             * planck_shape (c_h c / (c_k_B c * temp) * nu)"
proof -
  let ?x = "c_h c / (c_k_B c * temp) * nu"
  have pos: "0 < c_h c" "0 < c_k_B c" "0 < c_c c"
    using assms by (simp_all add: physical_def)
  have "c_k_B c * temp / c_h c * ?x = nu"
    using pos assms(2) by simp
  then have cube: "(c_k_B c * temp / c_h c) ^ 3 * ?x ^ 3 = nu ^ 3"
    by (simp only: power_mult_distrib [symmetric])
  have "2 * c_h c / (c_c c)\<^sup>2 * (c_k_B c * temp / c_h c) ^ 3 * (?x ^ 3 / (exp ?x - 1))
          = 2 * c_h c / (c_c c)\<^sup>2 * ((c_k_B c * temp / c_h c) ^ 3 * ?x ^ 3) / (exp ?x - 1)"
    by (simp only: times_divide_eq_right mult.assoc)
  also have "\<dots> = 2 * c_h c / (c_c c)\<^sup>2 * nu ^ 3 / (exp ?x - 1)"
    by (simp only: cube)
  also have "\<dots> = planck_radiance c temp nu"
    by (simp add: planck_radiance_def)
  finally show ?thesis
    by (simp only: planck_shape_def)
qed

lemma planck_shape_at_top: "(planck_shape \<longlongrightarrow> 0) at_top"
proof -
  have e: "((\<lambda>x::real. exp (- x)) \<longlongrightarrow> 0) at_top"
    by (rule filterlim_compose [OF exp_at_bot filterlim_uminus_at_bot_at_top])
  have "((\<lambda>x::real. x ^ 3 / exp x * (1 / (1 - exp (- x)))) \<longlongrightarrow> 0 * (1 / (1 - 0))) at_top"
    by (intro tendsto_intros tendsto_power_div_exp_0 e) simp
  moreover have "x ^ 3 / exp x * (1 / (1 - exp (- x))) = planck_shape x" for x :: real
  proof -
    have "exp x * (1 - exp (- x)) = exp x - 1"
      by (simp add: algebra_simps exp_minus)
    moreover have "x ^ 3 / exp x * (1 / (1 - exp (- x))) = x ^ 3 / (exp x * (1 - exp (- x)))"
      by simp
    ultimately show ?thesis
      by (simp only: planck_shape_def)
  qed
  ultimately show ?thesis
    by simp
qed

lemma planck_shape_at_0: "(planck_shape \<longlongrightarrow> 0) (at 0)"
proof -
  have "((\<lambda>h::real. (exp (0 + h) - exp 0) / h) \<longlongrightarrow> exp 0) (at 0)"
    using DERIV_exp [of "0::real"] by (simp only: DERIV_def)
  then have d: "((\<lambda>h::real. (exp h - 1) / h) \<longlongrightarrow> 1) (at 0)"
    by simp
  have "((\<lambda>h::real. h ^ 2 * (1 / ((exp h - 1) / h))) \<longlongrightarrow> 0 ^ 2 * (1 / 1)) (at 0)"
    by (intro tendsto_intros d) simp
  moreover have "h ^ 2 * (1 / ((exp h - 1) / h)) = planck_shape h" for h :: real
    by (simp add: planck_shape_def power2_eq_square power3_eq_cube)
  ultimately show ?thesis
    by simp
qed

lemma planck_radiance_at_top:
  assumes "physical c" "0 < temp"
  shows "(planck_radiance c temp \<longlongrightarrow> 0) at_top"
proof -
  have a: "0 < c_h c / (c_k_B c * temp)"
    using assms by (simp add: physical_def)
  have "LIM nu at_top. c_h c / (c_k_B c * temp) * nu :> at_top"
    by (rule filterlim_tendsto_pos_mult_at_top [OF tendsto_const a filterlim_ident])
  then have "((\<lambda>nu. planck_shape (c_h c / (c_k_B c * temp) * nu)) \<longlongrightarrow> 0) at_top"
    by (rule filterlim_compose [OF planck_shape_at_top])
  then have "((\<lambda>nu. 2 * c_h c / (c_c c)\<^sup>2 * (c_k_B c * temp / c_h c) ^ 3
                 * planck_shape (c_h c / (c_k_B c * temp) * nu)) \<longlongrightarrow> 0) at_top"
    by (rule tendsto_mult_right_zero)
  then show ?thesis
    by (simp only: planck_radiance_shape [OF assms, symmetric])
qed

lemma planck_radiance_at_0:
  assumes "physical c" "0 < temp"
  shows "(planck_radiance c temp \<longlongrightarrow> 0) (at 0)"
proof -
  have a: "c_h c / (c_k_B c * temp) \<noteq> 0"
    using assms by (simp add: physical_def)
  have "((\<lambda>nu. c_h c / (c_k_B c * temp) * nu) \<longlongrightarrow> c_h c / (c_k_B c * temp) * 0) (at 0)"
    by (intro tendsto_intros)
  then have "LIM nu at 0. c_h c / (c_k_B c * temp) * nu :> at 0"
    using a by (simp add: filterlim_at eventually_at_filter)
  then have "((\<lambda>nu. planck_shape (c_h c / (c_k_B c * temp) * nu)) \<longlongrightarrow> 0) (at 0)"
    by (rule filterlim_compose [OF planck_shape_at_0])
  then have "((\<lambda>nu. 2 * c_h c / (c_c c)\<^sup>2 * (c_k_B c * temp / c_h c) ^ 3
                 * planck_shape (c_h c / (c_k_B c * temp) * nu)) \<longlongrightarrow> 0) (at 0)"
    by (rule tendsto_mult_right_zero)
  then show ?thesis
    by (simp only: planck_radiance_shape [OF assms, symmetric])
qed

subsection \<open>The peak of the Planck radiance\<close>

lemma exp_lower_Maclaurin:
  fixes x :: real
  assumes "even n"
  shows "(\<Sum>m<n. x ^ m / fact m) \<le> exp x"
proof -
  obtain t where "exp x = (\<Sum>m<n. x ^ m / fact m) + exp t / fact n * x ^ n"
    using Maclaurin_exp_le [of x n] by blast
  moreover have "0 \<le> exp t / fact n * x ^ n"
    using assms by (intro mult_nonneg_nonneg zero_le_even_power) simp_all
  ultimately show ?thesis
    by linarith
qed

lemma exp_2821_lower: "(3000 / 179 :: real) < exp (2821 / 1000)"
proof -
  have "(3000 / 179 :: real) < (\<Sum>m<12. (2821 / 1000) ^ m / fact m)"
    by (simp add: eval_nat_numeral lessThan_Suc)
  also have "\<dots> \<le> exp (2821 / 1000)"
    by (rule exp_lower_Maclaurin) simp
  finally show ?thesis .
qed

lemma exp_2822_upper: "exp (2822 / 1000 :: real) < 3000 / 178"
proof -
  have "(178 / 3000 :: real) < (\<Sum>m<16. (- (2822 / 1000)) ^ m / fact m)"
    by (simp add: eval_nat_numeral lessThan_Suc)
  also have "\<dots> \<le> exp (- (2822 / 1000))"
    by (rule exp_lower_Maclaurin) simp
  finally have "(178 / 3000 :: real) < 1 / exp (2822 / 1000)"
    by (simp add: exp_minus inverse_eq_divide)
  then have "(178 / 3000 :: real) * exp (2822 / 1000) < 1"
    by (simp add: pos_less_divide_eq)
  then show ?thesis
    by (simp add: pos_less_divide_eq mult.commute)
qed

lemma wien_phi_deriv: "(wien_phi has_real_derivative (2 - x) * exp x) (at x)"
proof -
  have "((\<lambda>x. 3 * (exp x - 1) - x * exp x) has_real_derivative (2 - x) * exp x) (at x)"
    by (rule derivative_eq_intros refl | simp add: left_diff_distrib)+
  then show ?thesis
    by (simp only: wien_phi_def [abs_def])
qed

lemma wien_phi_continuous: "continuous_on A wien_phi"
  by (rule DERIV_continuous_on [where D = "\<lambda>x. (2 - x) * exp x"])
     (rule has_field_derivative_at_within [OF wien_phi_deriv])

lemma wien_phi_pos_upto_2:
  assumes "0 < x" "x \<le> 2"
  shows "0 < wien_phi x"
proof -
  have "wien_phi 0 < wien_phi x"
  proof (rule DERIV_pos_imp_increasing_open [OF assms(1)])
    fix y :: real
    assume "0 < y" "y < x"
    then have "0 < (2 - y) * exp y"
      using assms(2) by simp
    then show "\<exists>d. (wien_phi has_real_derivative d) (at y) \<and> 0 < d"
      using wien_phi_deriv by blast
  qed (rule wien_phi_continuous)
  then show ?thesis
    by (simp add: wien_phi_def)
qed

lemma wien_phi_decreasing_from_2:
  assumes "2 \<le> a" "a < b"
  shows "wien_phi b < wien_phi a"
proof (rule DERIV_neg_imp_decreasing_open [OF assms(2)])
  fix y :: real
  assume "a < y" "y < b"
  then have "(2 - y) * exp y < 0"
    using assms(1) by (simp add: mult_less_0_iff)
  then show "\<exists>d. (wien_phi has_real_derivative d) (at y) \<and> d < 0"
    using wien_phi_deriv by blast
qed (rule wien_phi_continuous)

lemma wien_phi_root:
  obtains x0 where "2821 / 1000 < x0" "x0 < 2822 / 1000" "wien_phi x0 = 0"
proof -
  have lo: "0 < wien_phi (2821 / 1000)"
    using exp_2821_lower by (simp add: wien_phi_def algebra_simps)
  have hi: "wien_phi (2822 / 1000) < 0"
    using exp_2822_upper by (simp add: wien_phi_def algebra_simps)
  have "\<exists>x\<ge>2821 / 1000. x \<le> 2822 / 1000 \<and> wien_phi x = 0"
    using lo hi by (intro IVT2' wien_phi_continuous) simp_all
  then obtain x0 where x0: "2821 / 1000 \<le> x0" "x0 \<le> 2822 / 1000" "wien_phi x0 = 0"
    by blast
  have "x0 \<noteq> 2821 / 1000" "x0 \<noteq> 2822 / 1000"
    using lo hi x0(3) by (metis less_irrefl)+
  then have "2821 / 1000 < x0" "x0 < 2822 / 1000"
    using x0(1,2) by linarith+
  then show thesis
    using x0(3) by (rule that)
qed

lemma wien_phi_sign:
  assumes "2 \<le> x0" "wien_phi x0 = 0"
  shows "0 < x \<Longrightarrow> x < x0 \<Longrightarrow> 0 < wien_phi x" and "x0 < x \<Longrightarrow> wien_phi x < 0"
proof -
  show "0 < wien_phi x" if "0 < x" "x < x0"
  proof (cases "x \<le> 2")
    case True
    then show ?thesis
      using that by (simp add: wien_phi_pos_upto_2)
  next
    case False
    then have "wien_phi x0 < wien_phi x"
      using that by (intro wien_phi_decreasing_from_2) simp_all
    then show ?thesis
      using assms(2) by simp
  qed
  show "wien_phi x < 0" if "x0 < x"
    using wien_phi_decreasing_from_2 [OF assms(1) that] assms(2) by simp
qed

lemma planck_shape_deriv:
  assumes "x \<noteq> 0"
  shows "(planck_shape has_real_derivative x\<^sup>2 * wien_phi x / (exp x - 1)\<^sup>2) (at x)"
proof -
  have nz: "exp x - 1 \<noteq> 0"
    using assms by simp
  have "((\<lambda>x. x ^ 3 / (exp x - 1)) has_real_derivative
           (3 * x\<^sup>2 * (exp x - 1) - x ^ 3 * exp x) / ((exp x - 1) * (exp x - 1))) (at x)"
    using nz by (auto intro!: derivative_eq_intros simp add: power2_eq_square)
  moreover have "3 * x\<^sup>2 * (exp x - 1) - x ^ 3 * exp x = x\<^sup>2 * wien_phi x"
    by (simp add: wien_phi_def power2_eq_square power3_eq_cube algebra_simps)
  ultimately show ?thesis
    by (simp add: planck_shape_def [abs_def] power2_eq_square)
qed

lemma planck_shape_continuous:
  assumes "0 < a"
  shows "continuous_on {a..b} planck_shape"
proof (rule DERIV_continuous_on [where D = "\<lambda>x. x\<^sup>2 * wien_phi x / (exp x - 1)\<^sup>2"])
  fix x :: real
  assume "x \<in> {a..b}"
  then have "x \<noteq> 0"
    using assms by auto
  then show "(planck_shape has_real_derivative x\<^sup>2 * wien_phi x / (exp x - 1)\<^sup>2)
               (at x within {a..b})"
    by (rule has_field_derivative_at_within [OF planck_shape_deriv])
qed

lemma planck_shape_increasing:
  assumes "2 \<le> x0" "wien_phi x0 = 0" "0 < a" "a < b" "b \<le> x0"
  shows "planck_shape a < planck_shape b"
proof (rule DERIV_pos_imp_increasing_open [OF assms(4)])
  fix y :: real
  assume y: "a < y" "y < b"
  then have "0 < wien_phi y"
    using assms by (intro wien_phi_sign(1) [OF assms(1,2)]) simp_all
  moreover have "0 < y\<^sup>2" "0 < (exp y - 1)\<^sup>2"
    using y assms(3) by simp_all
  ultimately have "0 < y\<^sup>2 * wien_phi y / (exp y - 1)\<^sup>2"
    by simp
  moreover have "y \<noteq> 0"
    using y assms(3) by simp
  ultimately show "\<exists>d. (planck_shape has_real_derivative d) (at y) \<and> 0 < d"
    using planck_shape_deriv by blast
qed (rule planck_shape_continuous [OF assms(3)])

lemma planck_shape_decreasing:
  assumes "2 \<le> x0" "wien_phi x0 = 0" "x0 \<le> a" "a < b"
  shows "planck_shape b < planck_shape a"
proof (rule DERIV_neg_imp_decreasing_open [OF assms(4)])
  have a: "0 < a"
    using assms(1,3) by simp
  fix y :: real
  assume y: "a < y" "y < b"
  then have "wien_phi y < 0"
    using assms by (intro wien_phi_sign(2) [OF assms(1,2)]) simp_all
  moreover have "0 < y\<^sup>2" "0 < (exp y - 1)\<^sup>2"
    using y a by simp_all
  ultimately have "y\<^sup>2 * wien_phi y / (exp y - 1)\<^sup>2 < 0"
    by (simp add: divide_less_0_iff mult_less_0_iff)
  moreover have "y \<noteq> 0"
    using y a by simp
  ultimately show "\<exists>d. (planck_shape has_real_derivative d) (at y) \<and> d < 0"
    using planck_shape_deriv by blast
next
  show "continuous_on {a..b} planck_shape"
    using assms(1,3) by (intro planck_shape_continuous) simp
qed

lemma planck_radiance_pos:
  assumes "physical c" "0 < temp" "0 < nu"
  shows "0 < planck_radiance c temp nu"
proof -
  have pos: "0 < c_h c" "0 < c_k_B c" "0 < c_c c"
    using assms by (simp_all add: physical_def)
  have "0 < c_h c * nu / (c_k_B c * temp)"
    using pos assms by simp
  then have d: "0 < exp (c_h c * nu / (c_k_B c * temp)) - 1"
    by simp
  have "0 < 2 * c_h c * nu ^ 3 / (c_c c)\<^sup>2"
    using pos assms by simp
  then show ?thesis
    unfolding planck_radiance_def using d by (rule divide_pos_pos)
qed

lemma planck_radiance_peak:
  assumes "physical c" "0 < temp"
  obtains p where
    "2821 / 1000 * c_k_B c * temp / c_h c < p" "p < 2822 / 1000 * c_k_B c * temp / c_h c"
    "\<And>a b. 0 < a \<Longrightarrow> a < b \<Longrightarrow> b \<le> p \<Longrightarrow> planck_radiance c temp a < planck_radiance c temp b"
    "\<And>a b. p \<le> a \<Longrightarrow> a < b \<Longrightarrow> planck_radiance c temp b < planck_radiance c temp a"
proof -
  let ?s = "c_h c / (c_k_B c * temp)"
  let ?C = "2 * c_h c / (c_c c)\<^sup>2 * (c_k_B c * temp / c_h c) ^ 3"
  have pos: "0 < c_h c" "0 < c_k_B c" "0 < c_c c"
    using assms by (simp_all add: physical_def)
  have s: "0 < ?s"
    using pos assms by simp
  have C: "0 < ?C"
    using pos assms by simp
  obtain x0 where x0: "2821 / 1000 < x0" "x0 < 2822 / 1000" "wien_phi x0 = 0"
    by (rule wien_phi_root)
  have x2: "2 \<le> x0"
    using x0(1) by simp
  have cancel: "u * (v / u) = v" if "u \<noteq> 0" for u v :: real
    using that by simp
  have "?s \<noteq> 0"
    using s by (metis less_irrefl)
  then have inv: "?s * (x0 / ?s) = x0"
    by (rule cancel)
  have scale: "x / ?s = x * c_k_B c * temp / c_h c" for x
    by simp
  show thesis
  proof (rule that [of "x0 / ?s"])
    show "2821 / 1000 * c_k_B c * temp / c_h c < x0 / ?s"
      using x0(1) s unfolding scale [symmetric] by (simp only: divide_strict_right_mono)
    show "x0 / ?s < 2822 / 1000 * c_k_B c * temp / c_h c"
      using x0(2) s unfolding scale [symmetric] by (simp only: divide_strict_right_mono)
  next
    fix a b :: real
    assume ab: "0 < a" "a < b" "b \<le> x0 / ?s"
    have "?s * b \<le> ?s * (x0 / ?s)"
      using ab(3) s by (simp only: mult_le_cancel_left_pos)
    then have "?s * b \<le> x0"
      by (simp only: inv)
    moreover have "0 < ?s * a" "?s * a < ?s * b"
      using ab(1,2) s by (simp_all only: mult_pos_pos mult_less_cancel_left_pos)
    ultimately have "planck_shape (?s * a) < planck_shape (?s * b)"
      using x2 x0(3) by (intro planck_shape_increasing [of x0])
    then have "?C * planck_shape (?s * a) < ?C * planck_shape (?s * b)"
      using C by (simp only: mult_less_cancel_left_pos)
    then show "planck_radiance c temp a < planck_radiance c temp b"
      by (simp only: planck_radiance_shape [OF assms])
  next
    fix a b :: real
    assume ab: "x0 / ?s \<le> a" "a < b"
    have "?s * (x0 / ?s) \<le> ?s * a"
      using ab(1) s by (simp only: mult_le_cancel_left_pos)
    then have "x0 \<le> ?s * a"
      by (simp only: inv)
    moreover have "?s * a < ?s * b"
      using ab(2) s by (simp only: mult_less_cancel_left_pos)
    ultimately have "planck_shape (?s * b) < planck_shape (?s * a)"
      using x2 x0(3) by (intro planck_shape_decreasing [of x0])
    then have "?C * planck_shape (?s * b) < ?C * planck_shape (?s * a)"
      using C by (simp only: mult_less_cancel_left_pos)
    then show "planck_radiance c temp b < planck_radiance c temp a"
      by (simp only: planck_radiance_shape [OF assms])
  qed
qed

section \<open>\<open>Radiating.Bnu\<close> in float64\<close>

lemma physical_astropy: "physical astropy"
  by (simp add: physical_def astropy_def)

lemma astropy_h: "between64 (- 111) (- 110) (Fin (c_h astropy))"
  by (rule between64_I) (simp_all add: astropy_def powr_minus_divide)

lemma astropy_k_B: "between64 (- 76) (- 75) (Fin (c_k_B astropy))"
  by (rule between64_I) (simp_all add: astropy_def powr_minus_divide)

lemma astropy_c: "between64 28 29 (Fin (c_c astropy))"
  by (rule between64_I) (simp_all add: astropy_def)

lemma disk_T: "between64 33 34 (Fin (T disk))"
  by (rule between64_I) (simp_all add: disk_def Radiating_init_def)

lemma between64_2: "between64 1 1 (Fin 2)"
  by (rule between64_I) simp_all

lemma disk_kT: "between64 (- 43) (- 41) (xmul64 (Fin (c_k_B astropy)) (Fin (T disk)))"
  using between64_mul [OF astropy_k_B disk_T] by simp

lemma astropy_cc: "between64 56 58 (xmul64 (Fin (c_c astropy)) (Fin (c_c astropy)))"
  using between64_mul [OF astropy_c astropy_c] by simp

lemma astropy_2h: "between64 (- 110) (- 109) (xmul64 (Fin 2) (Fin (c_h astropy)))"
  using between64_mul [OF between64_2 astropy_h] by simp

lemma between64_cube:
  assumes "between64 i j (Fin nu)" "- 1074 \<le> 3 * i" "3 * j \<le> 1023"
  shows "between64 (3 * i) (3 * j) (xmul64 (xmul64 (Fin nu) (Fin nu)) (Fin nu))"
proof -
  have "between64 (i + i) (j + j) (xmul64 (Fin nu) (Fin nu))"
    using assms(1,1) by (rule between64_mul) (use assms(2,3) in linarith)+
  then have "between64 (i + i + i) (j + j + j) (xmul64 (xmul64 (Fin nu) (Fin nu)) (Fin nu))"
    using assms(1) by (rule between64_mul) (use assms(2,3) in linarith)+
  then show ?thesis
    by (simp add: algebra_simps)
qed

lemma Bnu_f_between:
  assumes "between64 i j (Fin nu)" "- 300 \<le> i" "j \<le> 300"
  shows "between64 (3 * i - 168) (3 * j - 165) (Bnu_f astropy nu)"
proof -
  have i: "i \<le> j"
    using assms(1) by (auto simp add: between64_def dest: order_trans)
  have "between64 (3 * i) (3 * j) (xmul64 (xmul64 (Fin nu) (Fin nu)) (Fin nu))"
    using assms i by (intro between64_cube) simp_all
  then have "between64 (- 110 + 3 * i) (- 109 + 3 * j)
      (xmul64 (xmul64 (Fin 2) (Fin (c_h astropy))) (xmul64 (xmul64 (Fin nu) (Fin nu)) (Fin nu)))"
    using assms i by (intro between64_mul [OF astropy_2h]) simp_all
  then have "between64 (- 110 + 3 * i - 58) (- 109 + 3 * j - 56) (Bnu_f astropy nu)"
    unfolding Bnu_f_def using assms i by (intro between64_div [OF _ astropy_cc]) simp_all
  then show ?thesis
    by (simp add: algebra_simps)
qed

lemma Bnu_x_between:
  assumes "between64 i j (Fin nu)" "- 900 \<le> i" "j \<le> 900"
  shows "between64 (i - 70) (j - 67) (Bnu_x astropy disk nu)"
proof -
  have i: "i \<le> j"
    using assms(1) by (auto simp add: between64_def dest: order_trans)
  have "between64 (- 111 + i) (- 110 + j) (xmul64 (Fin (c_h astropy)) (Fin nu))"
    using assms i by (intro between64_mul [OF astropy_h]) simp_all
  then have "between64 (- 111 + i - (- 41)) (- 110 + j - (- 43)) (Bnu_x astropy disk nu)"
    unfolding Bnu_x_def using assms i by (intro between64_div [OF _ disk_kT]) simp_all
  then show ?thesis
    by (simp add: algebra_simps)
qed

text \<open>
  At the temperature of the notebook, \<open>h \<nu> / (k_B T)\<close> is below \<open>2\<^sup>-\<^sup>5\<^sup>4\<close> for every frequency
  up to \<open>2\<^sup>1\<^sup>3\<close> Hz. There \<open>np.exp(x)\<close> is the double 1, the denominator \<open>np.exp(x) - 1\<close> is 0,
  and the quotient is \<open>inf\<close>.
\<close>

lemma Bnu_low_frequency:
  assumes "between64 (- 300) 13 (Fin nu)"
  shows "Bnu_denominator astropy disk nu = Fin 0" and "Bnu_at astropy disk nu = PInf"
proof -
  have "between64 (- 300 - 70) (13 - 67) (Bnu_x astropy disk nu)"
    using assms by (intro Bnu_x_between) simp_all
  then obtain y where y: "Bnu_x astropy disk nu = Fin y" "0 < y" "y \<le> 2 powr (of_int (13 - 67))"
    by (rule between64_D)
  have "y \<le> 1 / 2 ^ 54"
    using y(3) by (simp add: powr_minus_divide)
  then have "xexp64 (Fin y) = Fin 1"
    using y(2) by (intro xexp64_tiny) simp_all
  then show d: "Bnu_denominator astropy disk nu = Fin 0"
    by (simp add: Bnu_denominator_def y(1) xsub64_def round64_0)
  have "between64 (3 * (- 300) - 168) (3 * 13 - 165) (Bnu_f astropy nu)"
    using assms by (intro Bnu_f_between) simp_all
  then obtain f where f: "Bnu_f astropy nu = Fin f" "0 < f"
    by (rule between64_D)
  show "Bnu_at astropy disk nu = PInf"
    using f(2) by (simp add: Bnu_at_def d f(1) xdiv64_def)
qed

lemma Bnu_at_1e9: "between64 (- 81) (- 34) (Bnu_at astropy disk (10 ^ 9))"
proof -
  have nu: "between64 29 30 (Fin (10 ^ 9))"
    by (rule between64_I) simp_all
  have "between64 (29 - 70) (30 - 67) (Bnu_x astropy disk (10 ^ 9))"
    using nu by (intro Bnu_x_between) simp_all
  then obtain y where y: "Bnu_x astropy disk (10 ^ 9) = Fin y"
    "2 powr (of_int (29 - 70)) \<le> y" "y \<le> 2 powr (of_int (30 - 67))"
    by (rule between64_D)
  have ylo: "1 / 2 ^ 41 \<le> y" and yhi: "y \<le> 1 / 2"
    using y(2,3) by (simp_all add: powr_minus_divide)
  have "1 + y \<le> exp y"
    by (rule exp_ge_add_one_self)
  then have "1 + 1 / 2 ^ 41 \<le> exp y"
    using ylo by linarith
  moreover have "of_int (2 ^ 41 + 1) * 2 powr (of_int (- 41)) = (1 + 1 / 2 ^ 41 :: real)"
    by (simp add: powr_minus_divide)
  ultimately have "of_int (2 ^ 41 + 1) * 2 powr (of_int (- 41)) \<le> exp y"
    by (simp only:)
  then have lo: "xle (Fin (of_int (2 ^ 41 + 1) * 2 powr (of_int (- 41)))) (round64 (exp y))"
    by (intro round64_ge_dyadic) (simp_all add: powr_minus_divide)
  have "exp y \<le> 1 + y + y\<^sup>2"
    using ylo yhi by (intro exp_bound) simp_all
  moreover have "y\<^sup>2 \<le> (1 / 2)\<^sup>2"
    using ylo yhi by (intro power_mono) simp_all
  ultimately have "exp y \<le> 2 powr (of_int 1)"
    using yhi by (simp add: power2_eq_square)
  then have hi: "xle (round64 (exp y)) (Fin (2 powr (of_int 1)))"
    using round64_mono [of "exp y" "2 powr (of_int 1)"] round64_pow2 [of 1] by simp
  obtain e where e: "round64 (exp y) = Fin e" "1 + 1 / 2 ^ 41 \<le> e" "e \<le> 2"
    using lo hi by (cases "round64 (exp y)") (simp_all add: powr_minus_divide field_simps)
  have "between64 (- 41) 0 (round64 (e - 1))"
    using e(2,3) by (intro round64_between) (simp_all add: powr_minus_divide)
  then have d: "between64 (- 41) 0 (Bnu_denominator astropy disk (10 ^ 9))"
    unfolding Bnu_denominator_def y(1) xexp64_def xsub64_def by (simp add: e(1))
  have "between64 (3 * 29 - 168) (3 * 30 - 165) (Bnu_f astropy (10 ^ 9))"
    using nu by (intro Bnu_f_between) simp_all
  then have "between64 (3 * 29 - 168 - 0) (3 * 30 - 165 - (- 41)) (Bnu_at astropy disk (10 ^ 9))"
    unfolding Bnu_at_def using d by (intro between64_div) simp_all
  then show ?thesis
    by simp
qed

text \<open>
  At the frequency 0 the numerator and the denominator are 0, or NaN already, for all
  constants and every object; from \<open>2\<^sup>3\<^sup>4\<^sup>2\<close> Hz on \<open>nu * nu * nu\<close> overflows.
\<close>

lemma Bnu_at_zero: "Bnu_at c self 0 = NaN"
proof -
  have x: "zero_or_NaN (Bnu_x c self 0)"
    unfolding Bnu_x_def
    using xdiv64_zero_left [of "xmul64 (Fin (c_h c)) (Fin 0)" "c_k_B c * T self"]
    by (simp add: xmul64_def round64_0 zero_or_NaN_def)
  have d: "zero_or_NaN (Bnu_denominator c self 0)"
    using x by (auto simp add: Bnu_denominator_def zero_or_NaN_def xexp64_def xsub64_def
        round64_1 round64_0)
  have "xmul64 (xmul64 (Fin 0) (Fin 0)) (Fin 0) = Fin 0"
    by (simp add: xmul64_def round64_0)
  moreover have "zero_or_NaN (xmul64 (round64 (2 * c_h c)) (Fin 0))"
    by (intro xmul64_zero_right round64_not_NaN)
  ultimately have "zero_or_NaN (xmul64 (xmul64 (Fin 2) (Fin (c_h c)))
      (xmul64 (xmul64 (Fin 0) (Fin 0)) (Fin 0)))"
    by (simp add: xmul64_def)
  then have f: "zero_or_NaN (Bnu_f c 0)"
    unfolding Bnu_f_def
    using xdiv64_zero_left [of _ "c_c c * c_c c"] by (simp add: xmul64_def)
  show ?thesis
    using f d by (auto simp add: Bnu_at_def zero_or_NaN_def xdiv64_def)
qed

lemma Bnu_high_frequency:
  assumes nu: "between64 342 343 (Fin nu)"
  shows "Bnu_at astropy disk nu = NaN"
proof -
  obtain n where n: "2 powr (of_int 342) \<le> nu" "0 < nu"
    using nu by (rule between64_D) simp
  have "between64 (342 + 342) (343 + 343) (xmul64 (Fin nu) (Fin nu))"
    using nu nu by (rule between64_mul) simp_all
  then obtain a where a: "xmul64 (Fin nu) (Fin nu) = Fin a" "2 powr (of_int (342 + 342)) \<le> a"
    by (rule between64_D)
  have "(2 ^ 684 :: real) * 2 ^ 342 \<le> a * nu"
    using a(2) n by (intro mult_mono) simp_all
  then have "(2 ^ 1024 :: real) \<le> a * nu"
    by simp
  then have "round64 (a * nu) = PInf"
    by (rule round64_overflow)
  then have cube: "xmul64 (xmul64 (Fin nu) (Fin nu)) (Fin nu) = PInf"
    unfolding a(1) by (simp add: xmul64_def)
  obtain h2 where h2: "xmul64 (Fin 2) (Fin (c_h astropy)) = Fin h2" "0 < h2"
    using astropy_2h by (rule between64_D)
  obtain cc where cc: "xmul64 (Fin (c_c astropy)) (Fin (c_c astropy)) = Fin cc" "0 < cc"
    using astropy_cc by (rule between64_D)
  have "xmul64 (Fin h2) PInf = PInf"
    using h2(2) by (simp add: xmul64_def)
  moreover have "xdiv64 PInf (Fin cc) = PInf"
    using cc(2) by (simp add: xdiv64_def)
  ultimately have f: "Bnu_f astropy nu = PInf"
    unfolding Bnu_f_def cube h2(1) cc(1) by simp
  have "between64 (342 - 70) (343 - 67) (Bnu_x astropy disk nu)"
    using nu by (intro Bnu_x_between) simp_all
  then obtain y where y: "Bnu_x astropy disk nu = Fin y" "2 powr (of_int (342 - 70)) \<le> y"
    by (rule between64_D)
  have "1024 \<le> y"
    using y(2) by simp
  then have "xexp64 (Fin y) = PInf"
    by (rule xexp64_overflow)
  then have d: "Bnu_denominator astropy disk nu = PInf"
    unfolding Bnu_denominator_def y(1) by (simp add: xsub64_def)
  show ?thesis
    by (simp add: Bnu_at_def f d xdiv64_def)
qed


lemma nu_1000: "between64 (- 300) 13 (Fin 1000)"
  by (rule between64_I) (simp_all add: powr_minus_divide)

lemma planck_radiance_1000:
  "0 < planck_radiance astropy (T disk) 1000" "planck_radiance astropy (T disk) 1000 < 1"
proof -
  let ?x = "c_h astropy * 1000 / (c_k_B astropy * T disk)"
  let ?N = "2 * c_h astropy * 1000 ^ 3 / (c_c astropy)\<^sup>2"
  have T: "0 < T disk"
    by (simp add: disk_def Radiating_init_def)
  show "0 < planck_radiance astropy (T disk) 1000"
    using physical_astropy T by (rule planck_radiance_pos) simp
  have x: "0 < ?x"
    using T by (simp add: astropy_def)
  have N: "0 \<le> ?N"
    by (simp add: astropy_def)
  have "1 + ?x \<le> exp ?x"
    by (rule exp_ge_add_one_self)
  then have e: "?x \<le> exp ?x - 1"
    by linarith
  have "0 < (exp ?x - 1) * ?x"
    using x e by (intro mult_pos_pos) linarith+
  with e N have "?N / (exp ?x - 1) \<le> ?N / ?x"
    by (rule divide_left_mono)
  moreover have "?N / ?x < 1"
    by (simp add: astropy_def disk_def Radiating_init_def)
  ultimately show "planck_radiance astropy (T disk) 1000 < 1"
    unfolding planck_radiance_def by linarith
qed

text \<open>
  Claim C2. \<open>Radiating.Bnu\<close>, documented as the Planck function, does not return the Planck
  radiance at every positive frequency. On the object of the notebook (\<open>T = 10\<^sup>1\<^sup>0\<close> K) and
  the frequency 1000 Hz the Planck radiance is a positive number below 1, and the method
  returns \<open>inf\<close>.
\<close>

theorem Bnu_infinite_at_1000_Hz:
  "Radiating_Bnu astropy disk (Scalar 1000) = (Some (Scalar PInf), disk)
   \<and> 0 < planck_radiance astropy (T disk) 1000
   \<and> planck_radiance astropy (T disk) 1000 < 1"
  using Bnu_low_frequency(2) [OF nu_1000] planck_radiance_1000
  by (simp add: Radiating_Bnu_def)

text \<open>
  Claim C7. Below the peak the values of \<open>Radiating.Bnu\<close> do not increase with the
  frequency. On the object of the notebook, 1000 Hz and \<open>10\<^sup>9\<close> Hz both lie below
  \<open>2.821 k_B T / h\<close> and the Planck radiance is greater at \<open>10\<^sup>9\<close> Hz, while the method returns
  \<open>inf\<close> at 1000 Hz and a number at \<open>10\<^sup>9\<close> Hz.
\<close>

theorem Bnu_not_increasing_below_peak:
  "(1000 :: real) < 10 ^ 9
   \<and> 10 ^ 9 < 2821 / 1000 * c_k_B astropy * T disk / c_h astropy
   \<and> planck_radiance astropy (T disk) 1000 < planck_radiance astropy (T disk) (10 ^ 9)
   \<and> xless (Bnu_at astropy disk (10 ^ 9)) (Bnu_at astropy disk 1000)"
proof -
  have T: "0 < T disk"
    by (simp add: disk_def Radiating_init_def)
  obtain p where p: "2821 / 1000 * c_k_B astropy * T disk / c_h astropy < p"
    "p < 2822 / 1000 * c_k_B astropy * T disk / c_h astropy"
    "\<And>a b. 0 < a \<Longrightarrow> a < b \<Longrightarrow> b \<le> p \<Longrightarrow>
      planck_radiance astropy (T disk) a < planck_radiance astropy (T disk) b"
    "\<And>a b. p \<le> a \<Longrightarrow> a < b \<Longrightarrow>
      planck_radiance astropy (T disk) b < planck_radiance astropy (T disk) a"
    using planck_radiance_peak [OF physical_astropy T] by blast
  have below: "10 ^ 9 < 2821 / 1000 * c_k_B astropy * T disk / c_h astropy"
    by (simp add: astropy_def disk_def Radiating_init_def)
  then have "10 ^ 9 \<le> p"
    using p(1) by linarith
  then have formula:
    "planck_radiance astropy (T disk) 1000 < planck_radiance astropy (T disk) (10 ^ 9)"
    by (intro p(3)) simp_all
  obtain b where "Bnu_at astropy disk (10 ^ 9) = Fin b"
    using Bnu_at_1e9 by (rule between64_D)
  then have "xless (Bnu_at astropy disk (10 ^ 9)) (Bnu_at astropy disk 1000)"
    by (simp add: Bnu_low_frequency(2) [OF nu_1000])
  then show ?thesis
    using below formula by simp
qed

text \<open>
  Claim C8. The values of \<open>Radiating.Bnu\<close> tend to 0 at neither end, although the Planck
  radiance does. On the object of the notebook the method returns \<open>inf\<close> at every frequency
  from \<open>2\<^sup>-\<^sup>3\<^sup>0\<^sup>0\<close> to \<open>2\<^sup>1\<^sup>3\<close> Hz, and NaN at every frequency from \<open>2\<^sup>3\<^sup>4\<^sup>2\<close> to \<open>2\<^sup>3\<^sup>4\<^sup>3\<close> Hz.
\<close>

theorem Bnu_limits_fail:
  "(\<forall>nu. 2 powr (- 300) \<le> nu \<and> nu \<le> 2 powr 13 \<longrightarrow> Bnu_at astropy disk nu = PInf)
   \<and> (\<forall>nu. 2 powr 342 \<le> nu \<and> nu \<le> 2 powr 343 \<longrightarrow> Bnu_at astropy disk nu = NaN)
   \<and> (planck_radiance astropy (T disk) \<longlongrightarrow> 0) (at_right 0)
   \<and> (planck_radiance astropy (T disk) \<longlongrightarrow> 0) at_top"
proof (intro conjI allI impI)
  fix nu :: real
  assume "2 powr (- 300) \<le> nu \<and> nu \<le> 2 powr 13"
  then have "between64 (- 300) 13 (Fin nu)"
    by (intro between64_I) simp_all
  then show "Bnu_at astropy disk nu = PInf"
    by (rule Bnu_low_frequency(2))
next
  fix nu :: real
  assume "2 powr 342 \<le> nu \<and> nu \<le> 2 powr 343"
  then have "between64 342 343 (Fin nu)"
    by (intro between64_I) simp_all
  then show "Bnu_at astropy disk nu = NaN"
    by (rule Bnu_high_frequency)
next
  have T: "0 < T disk"
    by (simp add: disk_def Radiating_init_def)
  have "(planck_radiance astropy (T disk) \<longlongrightarrow> 0) (at 0)"
    using physical_astropy T by (rule planck_radiance_at_0)
  then show "(planck_radiance astropy (T disk) \<longlongrightarrow> 0) (at_right 0)"
    by (rule filterlim_mono) (simp_all add: at_le)
  show "(planck_radiance astropy (T disk) \<longlongrightarrow> 0) at_top"
    using physical_astropy T by (rule planck_radiance_at_top)
qed

theorem Bnu_limits_fail_witness:
  "Bnu_at astropy disk 1 = PInf \<and> Bnu_at astropy disk (2 ^ 342) = NaN
   \<and> (planck_radiance astropy (T disk) \<longlongrightarrow> 0) (at_right 0)
   \<and> (planck_radiance astropy (T disk) \<longlongrightarrow> 0) at_top"
proof -
  have a: "2 powr (- 300) \<le> (1::real) \<and> (1::real) \<le> 2 powr 13"
    by (simp add: powr_minus_divide)
  have b: "2 powr 342 \<le> (2 ^ 342 :: real) \<and> (2 ^ 342 :: real) \<le> 2 powr 343"
    by simp
  show ?thesis
    using Bnu_limits_fail a b by blast
qed




section \<open>Bremsstrahlung emissivity\<close>

lemma physical_codata: "physical codata"
  by (simp add: physical_def codata_def)

lemma jnu_bremss_f_Fin:
  assumes "physical c"
  shows "jnu_bremss_f c = Fin (bremss_K c * c_e_gauss c ^ 6)"
proof -
  have pos: "0 < c_k_B c" "0 < c_m_e c" "0 < c_c c"
    using assms by (simp_all add: physical_def)
  have "\<not> 2 * pi / (3 * c_k_B c * c_m_e c) < 0"
    using pos by (simp add: not_less zero_le_divide_iff zero_le_mult_iff)
  then show ?thesis
    using pos by (simp add: jnu_bremss_f_def bremss_K_def)
qed

lemma jnu_bremss_ne_Fin:
  assumes "physical c"
  shows "jnu_bremss_ne c self = Fin (bremss_n_e c (rho self))"
proof -
  have "c_m_e c + c_m_p c \<noteq> 0"
    using assms by (simp add: physical_def add_pos_pos less_imp_neq[symmetric])
  then show ?thesis
    by (simp add: jnu_bremss_ne_def bremss_n_e_def)
qed

lemma jnu_bremss_at_Fin:
  assumes "physical c" "0 < T self"
  shows "jnu_bremss_at c self nu =
           Fin (bremsstrahlung_emissivity c (rho self) (T self) (Z self) nu)"
proof -
  have "c_k_B c * T self \<noteq> 0"
    using assms by (simp add: physical_def)
  moreover have "T self powr (1 / 2) = sqrt (T self)"
    using assms by (simp add: powr_half_sqrt)
  ultimately show ?thesis
    using assms
    by (simp add: jnu_bremss_at_def jnu_bremss_f_Fin jnu_bremss_ne_Fin
        bremsstrahlung_emissivity_def power2_eq_square)
qed

text \<open>
  Claim C1. For a temperature \<open>T > 0\<close>, any density and charge number, and any frequency
  input, \<open>RL.jnu_bremss\<close> returns, element by element, the emissivity
  \<open>K e\<^sup>6 T\<^sup>1\<^sup>/\<^sup>2 Z\<^sup>2 n\<^sub>e n\<^sub>i exp (- h \<nu> / (k_B T))\<close> of the specification, in an output of the
  shape of the input.
\<close>

theorem RL_jnu_bremss_formula:
  assumes "physical c" "0 < T self"
  shows "\<exists>out. RL_jnu_bremss c self nu = (Some out, self)
           \<and> out = elementwise
                 (\<lambda>x. Fin (bremsstrahlung_emissivity c (rho self) (T self) (Z self) x)) nu
           \<and> shape out = shape nu"
  using assms
  by (simp add: RL_jnu_bremss_def shape_elementwise jnu_bremss_at_Fin cong: elementwise_cong)

theorem RL_jnu_bremss_formula_witness:
  "physical codata \<and> 0 < T disk_RL \<and>
   (\<exists>out. RL_jnu_bremss codata disk_RL nus = (Some out, disk_RL)
      \<and> out = elementwise
            (\<lambda>x. Fin (bremsstrahlung_emissivity codata (10 ^ 18) (10 ^ 10) 1 x)) nus
      \<and> shape out = [61])"
  using RL_jnu_bremss_formula [OF physical_codata, of disk_RL nus]
  by (simp add: physical_codata disk_RL_def Radiating_init_def nus_def)









section \<open>\<open>RL.jnu_bremss\<close> in float64\<close>


















section \<open>Instantiation and method calls\<close>

lemma abstractmethods_Radiating_class:
  "abstractmethods Radiating_class = [''jnu_bremss'', ''jnu_sync'']"
  by (simp add: Radiating_class_def ABC_class_def attr_isabstract_def)

lemma map_of_plain_defs:
  "map_of (map (\<lambda>(k, m). (k, PyFunction False m)) xs) k
     = map_option (PyFunction False) (map_of xs k)"
  by (induction xs) auto

lemma plain_defs_not_abstract:
  "\<not> attr_isabstract (map_of (map (\<lambda>(k, m). (k, PyFunction False m)) xs) k)"
  by (simp add: map_of_plain_defs attr_isabstract_def split: option.splits)

lemma getattr_new_subclass:
  "getattr_class (new_subclass name body) k =
     (case map_of (rev body) k of
        Some m \<Rightarrow> Some (PyFunction False m)
      | None \<Rightarrow> getattr_class Radiating_class k)"
  by (simp add: new_subclass_def map_of_plain_defs split: option.splits)

lemma getattr_Radiating_class:
  "getattr_class Radiating_class k =
     (if k = ''Bnu'' then Some (PyFunction False Radiating_Bnu)
      else if k = ''jnu_bremss'' then Some (PyFunction True Radiating_jnu_bremss)
      else if k = ''jnu_sync'' then Some (PyFunction True Radiating_jnu_sync)
      else None)"
  by (simp add: Radiating_class_def ABC_class_def)

lemma map_of_rev_None_iff: "map_of (rev xs) k = None \<longleftrightarrow> k \<notin> fst ` set xs"
  by (simp add: map_of_eq_None_iff)

lemma abstractmethods_new_subclass:
  "abstractmethods (new_subclass name body) =
     filter (\<lambda>k. k \<notin> fst ` set body) [''jnu_bremss'', ''jnu_sync'']"
proof -
  have own: "filter (\<lambda>k. attr_isabstract
                 (map_of (map (\<lambda>(k, m). (k, PyFunction False m)) (rev body)) k)) ks = []" for ks
    by (simp add: plain_defs_not_abstract)
  have inh: "attr_isabstract (getattr_class (new_subclass name body) k) \<longleftrightarrow> k \<notin> fst ` set body"
    if "k = ''jnu_bremss'' \<or> k = ''jnu_sync''" for k
    using that map_of_rev_None_iff [of body k]
    by (auto simp add: getattr_new_subclass getattr_Radiating_class attr_isabstract_def
        split: option.splits)
  have "abstractmethods (new_subclass name body) =
          remdups (filter (\<lambda>k. attr_isabstract (getattr_class (new_subclass name body) k))
                     [''jnu_bremss'', ''jnu_sync''])"
    unfolding new_subclass_def abstractmethods.simps own
    by (simp only: abstractmethods_Radiating_class append_Nil)
  also have "\<dots> = remdups (filter (\<lambda>k. k \<notin> fst ` set body) [''jnu_bremss'', ''jnu_sync''])"
    using inh by (intro arg_cong [where f = remdups] filter_cong) auto
  also have "\<dots> = filter (\<lambda>k. k \<notin> fst ` set body) [''jnu_bremss'', ''jnu_sync'']"
    by simp
  finally show ?thesis .
qed

text \<open>
  Claim C3. Calling \<open>Radiating\<close> itself fails with \<open>TypeError\<close> when the object is
  created, whatever the arguments, since \<open>jnu_bremss\<close> and \<open>jnu_sync\<close> are abstract. A
  subclass whose body defines both methods is instantiated, with the attributes that
  \<open>__init__\<close> sets; a subclass whose body lacks one of them fails in the same way.
\<close>

theorem abstract_class_instantiation:
  "instantiate Radiating_class rho' T' cos_theta B' Z'
     = Inl (TypeError ''Radiating'' [''jnu_bremss'', ''jnu_sync''])
   \<and> (''jnu_bremss'' \<in> fst ` set body \<and> ''jnu_sync'' \<in> fst ` set body \<longrightarrow>
        instantiate (new_subclass name body) rho' T' cos_theta B' Z'
          = Inr (new_subclass name body, Radiating_init rho' T' cos_theta B' Z'))
   \<and> (\<not> (''jnu_bremss'' \<in> fst ` set body \<and> ''jnu_sync'' \<in> fst ` set body) \<longrightarrow>
        (\<exists>names. instantiate (new_subclass name body) rho' T' cos_theta B' Z'
                    = Inl (TypeError name names)))"
proof (intro conjI impI)
  show "instantiate Radiating_class rho' T' cos_theta B' Z'
          = Inl (TypeError ''Radiating'' [''jnu_bremss'', ''jnu_sync''])"
    by (simp add: instantiate_def abstractmethods_Radiating_class) (simp add: Radiating_class_def)
next
  assume "''jnu_bremss'' \<in> fst ` set body \<and> ''jnu_sync'' \<in> fst ` set body"
  then show "instantiate (new_subclass name body) rho' T' cos_theta B' Z'
          = Inr (new_subclass name body, Radiating_init rho' T' cos_theta B' Z')"
    by (simp add: instantiate_def abstractmethods_new_subclass)
next
  assume "\<not> (''jnu_bremss'' \<in> fst ` set body \<and> ''jnu_sync'' \<in> fst ` set body)"
  then have "abstractmethods (new_subclass name body) \<noteq> []"
    by (auto simp add: abstractmethods_new_subclass)
  then show "\<exists>names. instantiate (new_subclass name body) rho' T' cos_theta B' Z'
                    = Inl (TypeError name names)"
    by (simp add: instantiate_def) (simp add: new_subclass_def)
qed

theorem abstract_class_instantiation_witness:
  "instantiate Radiating_class (10 ^ 18) (10 ^ 10) 0 0 None
     = Inl (TypeError ''Radiating'' [''jnu_bremss'', ''jnu_sync''])
   \<and> instantiate Dummy_class (10 ^ 18) (10 ^ 10) 0 0 None = Inr (Dummy_class, disk)
   \<and> instantiate RL_class (10 ^ 18) (10 ^ 10) 0 0 None = Inr (RL_class, disk_RL)
   \<and> (\<exists>names. instantiate (new_subclass ''Half'' [(''jnu_bremss'', RL_jnu_bremss)])
                  (10 ^ 18) (10 ^ 10) 0 0 None = Inl (TypeError ''Half'' names))"
  using abstract_class_instantiation
      [of "10 ^ 18" "10 ^ 10" 0 0 None
          "[(''jnu_bremss'', Dummy_jnu_bremss), (''jnu_sync'', Dummy_jnu_sync)]" "''Dummy''"]
    abstract_class_instantiation
      [of "10 ^ 18" "10 ^ 10" 0 0 None
          "[(''jnu_bremss'', RL_jnu_bremss), (''jnu_sync'', RL_jnu_sync)]" "''RL''"]
    abstract_class_instantiation
      [of "10 ^ 18" "10 ^ 10" 0 0 None "[(''jnu_bremss'', RL_jnu_bremss)]" "''Half''"]
  by (simp add: Dummy_class_def RL_class_def disk_def disk_RL_def)

text \<open>
  Claim C5 fails on the code: \<open>RL.jnu_sync\<close> is the stub \<open>pass\<close>. Called on the object
  and the 61 frequencies of the notebook, it returns \<open>None\<close>, not an array of 61
  emissivities.
\<close>

theorem RL_jnu_sync_returns_None:
  "call_method codata (RL_class, disk_RL) ''jnu_sync'' nus = (Inr None, (RL_class, disk_RL))
   \<and> RL_jnu_sync codata disk_RL nus = (None, disk_RL)"
  by (simp add: call_method_def RL_class_def getattr_new_subclass RL_jnu_sync_def)

lemma pure_Radiating_class: "pure_class Radiating_class"
  by (auto simp add: pure_class_def getattr_Radiating_class Radiating_Bnu_def
      Radiating_jnu_bremss_def Radiating_jnu_sync_def split: if_splits)

lemma pure_new_subclass:
  assumes "\<And>k m c self nu. (k, m) \<in> set body \<Longrightarrow> snd (m c self nu) = self"
  shows "pure_class (new_subclass name body)"
  unfolding pure_class_def
proof (intro allI impI)
  fix k f c self nu
  assume g: "getattr_class (new_subclass name body) k = Some f"
  show "snd (code f c self nu) = self"
  proof (cases "map_of (rev body) k")
    case None
    then have "getattr_class Radiating_class k = Some f"
      using g by (simp add: getattr_new_subclass)
    then show ?thesis
      using pure_Radiating_class by (simp add: pure_class_def)
  next
    case (Some m)
    then have "(k, m) \<in> set body"
      using map_of_SomeD [of "rev body" k m] by simp
    moreover have "f = PyFunction False m"
      using g Some by (simp add: getattr_new_subclass)
    ultimately show ?thesis
      using assms by simp
  qed
qed

lemma pure_Dummy_class: "pure_class Dummy_class"
  unfolding Dummy_class_def
  by (rule pure_new_subclass) (auto simp add: Dummy_jnu_bremss_def Dummy_jnu_sync_def)

lemma pure_RL_class: "pure_class RL_class"
  unfolding RL_class_def
  by (rule pure_new_subclass) (auto simp add: RL_jnu_bremss_def RL_jnu_sync_def)

lemma call_method_pure:
  assumes "pure_class cls"
  shows "snd (call_method c (cls, self) name nu) = (cls, self)"
proof (cases "getattr_class cls name")
  case None
  then show ?thesis by (simp add: call_method_def)
next
  case (Some f)
  then have "snd (code f c self nu) = self"
    using assms by (simp add: pure_class_def)
  then show ?thesis
    using Some by (cases "code f c self nu") (simp add: call_method_def)
qed

lemma call_all_pure:
  assumes "pure_class cls"
  shows "call_all c (cls, self) calls =
           (map (\<lambda>(name, nu). fst (call_method c (cls, self) name nu)) calls, (cls, self))"
proof (induction calls)
  case Nil
  show ?case by simp
next
  case (Cons call calls)
  obtain name nu where call: "call = (name, nu)"
    by (cases call)
  obtain r where r: "call_method c (cls, self) name nu = (r, (cls, self))"
    using call_method_pure [OF assms, of c self name nu]
    by (cases "call_method c (cls, self) name nu") simp
  show ?case
    using Cons.IH by (simp add: call r)
qed

text \<open>
  Claim C9. Any sequence of method calls on an object of class \<open>Dummy\<close> or \<open>RL\<close> leaves
  the object, and so each of its attributes, as it was; and each call returns what the same
  call returns on the object as constructed, so that equal calls return equal results.
\<close>

theorem calls_leave_attributes_unchanged:
  "call_all c (Dummy_class, self) calls =
     (map (\<lambda>(name, nu). fst (call_method c (Dummy_class, self) name nu)) calls,
      (Dummy_class, self))
   \<and> call_all c (RL_class, self) calls =
     (map (\<lambda>(name, nu). fst (call_method c (RL_class, self) name nu)) calls,
      (RL_class, self))"
  by (simp add: call_all_pure pure_Dummy_class pure_RL_class)

theorem calls_leave_attributes_unchanged_witness:
  "call_all codata (RL_class, disk_RL)
     [(''Bnu'', Scalar 0), (''jnu_sync'', nus), (''Bnu'', Scalar 0)]
   = ([Inr (Some (Scalar NaN)), Inr None, Inr (Some (Scalar NaN))], (RL_class, disk_RL))"
proof -
  have "Bnu_at codata disk_RL 0 = NaN"
    by (rule Bnu_at_zero)
  then show ?thesis
    using calls_leave_attributes_unchanged
      [of codata disk_RL "[(''Bnu'', Scalar 0), (''jnu_sync'', nus), (''Bnu'', Scalar 0)]"]
    by (simp add: call_method_def RL_class_def getattr_new_subclass getattr_Radiating_class
        Radiating_Bnu_def RL_jnu_sync_def)
qed

end
